theory Spec2Isabelle
  imports Main "HOL-Library.Word"
begin

section \<open>Bytes, machine integers and faults\<close>

text \<open>
  The driver (\<^verbatim>\<open>Core/Src/wifi.c\<close>) works on \<^verbatim>\<open>char\<close> buffers with
  \<^verbatim>\<open>uint16_t\<close> and \<^verbatim>\<open>uint32_t\<close> sizes and indices. A buffer is the list of
  its bytes (its length is the size of the array the pointer points into); the unsigned
  integers are words, so that \<^verbatim>\<open>endPos - 1\<close> and \<^verbatim>\<open>endPos + 1 - trimPos\<close> wrap
  around as they do in C.

  Whatever ends a run other than a \<^verbatim>\<open>return\<close> is a value of \<open>fault\<close>:
  \<^item> \<open>ErrorHandler\<close>: the code called \<^verbatim>\<open>Error_Handler()\<close>;
  \<^item> \<open>OutOfBounds\<close>: a read or write outside the array (undefined behaviour in C);
  \<^item> \<open>BadFormat\<close>: a \<^verbatim>\<open>printf\<close> conversion for which no argument was passed
    (undefined behaviour in C);
  \<^item> \<open>NullPointer\<close>: arithmetic on or a read through the null pointer that
    \<^verbatim>\<open>strstr\<close> returns when it finds nothing;
  \<^item> \<open>Hang\<close>: a busy-wait loop that never ends.
\<close>

type_synonym byte = "8 word"
type_synonym uint16 = "16 word"
type_synonym uint32 = "32 word"

datatype fault = ErrorHandler | OutOfBounds | BadFormat | NullPointer | Hang

section \<open>The C library calls the driver makes\<close>

text \<open>
  \<open>c_string p\<close> is the string a \<^verbatim>\<open>char*\<close> denotes: the bytes from the pointer up to
  the first NUL. \<open>p\<close> is the rest of the array from the pointer on; an array with no NUL
  is read past its end.
\<close>

definition c_string :: "byte list \<Rightarrow> fault + byte list" where
  "c_string p = (if 0 \<in> set p then Inr (takeWhile (\<lambda>b. b \<noteq> 0) p) else Inl OutOfBounds)"

text \<open>
  The driver calls \<^verbatim>\<open>snprintf(dst, n, fmt)\<close> with a format and no further argument.
  \<open>expand_format\<close> is what \<^verbatim>\<open>printf\<close> makes of such a format: ordinary bytes are
  copied, \<^verbatim>\<open>%%\<close> gives one \<^verbatim>\<open>%\<close> (byte 37), and any other conversion asks for an
  argument that is not there.
\<close>

fun expand_format :: "byte list \<Rightarrow> fault + byte list" where
  "expand_format [] = Inr []"
| "expand_format [b] = (if b = 37 then Inl BadFormat else Inr [b])"
| "expand_format (b # b' # bs) =
     (if b = 37 then
        (if b' = 37 then
           (case expand_format bs of Inl e \<Rightarrow> Inl e | Inr out \<Rightarrow> Inr (37 # out))
         else Inl BadFormat)
      else (case expand_format (b' # bs) of Inl e \<Rightarrow> Inl e | Inr out \<Rightarrow> Inr (b # out)))"

text \<open>
  \<open>snprintf dst n fmt\<close>, for a format that lies outside \<open>dst\<close>: at most \<open>n - 1\<close> bytes
  of the expanded format go to the start of \<open>dst\<close>, followed by a NUL; nothing is written
  when \<open>n = 0\<close>. The result is the new content of \<open>dst\<close> and the length of the whole
  expansion (the value C returns).
\<close>

definition snprintf :: "byte list \<Rightarrow> nat \<Rightarrow> byte list \<Rightarrow> fault + byte list \<times> nat" where
  "snprintf dst n fmt =
     (case c_string fmt of Inl e \<Rightarrow> Inl e | Inr f \<Rightarrow>
     (case expand_format f of Inl e \<Rightarrow> Inl e | Inr out \<Rightarrow>
        if n = 0 then Inr (dst, length out)
        else let k = min (length out) (n - 1) in
          if k < length dst then Inr (take k out @ [0] @ drop (k + 1) dst, length out)
          else Inl OutOfBounds))"

text \<open>
  \<open>snprintf_in_place str n off\<close> is the call \<^verbatim>\<open>snprintf(str, n, &str[off])\<close> of
  \<^verbatim>\<open>trimstr\<close>, whose format lies inside its destination. C leaves a copy between
  overlapping objects undefined. The model follows the GNU C library: for \<open>n > 0\<close> it
  stores a NUL in the first byte of the destination before it reads the format, and then
  copies forward. So for \<open>off \<ge> 1\<close> every byte of the format is read before the copy
  reaches it, and the string that starts at \<open>off\<close> moves to the front; for \<open>off = 0\<close> the
  format has become the empty string when it is read, and the call leaves the empty
  string.
\<close>

definition snprintf_in_place :: "byte list \<Rightarrow> nat \<Rightarrow> nat \<Rightarrow> fault + byte list \<times> nat" where
  "snprintf_in_place str n off =
     (if n = 0 then snprintf str n (drop off str)
      else if str = [] then Inl OutOfBounds
      else snprintf (str[0 := 0]) n (drop off (str[0 := 0])))"

section \<open>\<^verbatim>\<open>trimstr\<close>\<close>

text \<open>
  The three loops of \<^verbatim>\<open>trimstr(str, strSize, c)\<close>, each a function of its loop
  variable \<open>i\<close> (a \<^verbatim>\<open>uint32_t\<close>; the two upward loops keep \<open>i < strSize\<close>, so \<open>i\<close>
  and \<open>i + 1\<close> never wrap).

  First loop: \<open>endPos\<close> becomes the index of the first NUL among the first
  \<open>strSize\<close> bytes, and stays 0 when there is none.
\<close>

function trimstr_find_end :: "byte list \<Rightarrow> nat \<Rightarrow> nat \<Rightarrow> fault + uint32" where
  "trimstr_find_end str strSize i =
     (if i < strSize then
        (if i < length str then
           (if str ! i \<noteq> 0 then trimstr_find_end str strSize (i + 1)
            else Inr (of_nat i))
         else Inl OutOfBounds)
      else Inr 0)"
  by pat_completeness auto
termination
  by (relation "measure (\<lambda>(str, strSize, i). strSize - i)") auto

text \<open>
  Second loop, \<^verbatim>\<open>for (i = endPos - 1; i > 0; i--)\<close>: while \<open>str[i]\<close> is \<open>c\<close> it is
  overwritten with NUL and \<open>endPos\<close> becomes \<open>i\<close>. Index 0 is never looked at. The
  caller passes the start value \<open>unat (endPos - 1)\<close>.
\<close>

function trimstr_scan_back :: "byte \<Rightarrow> nat \<Rightarrow> byte list \<Rightarrow> uint32 \<Rightarrow> fault + byte list \<times> uint32" where
  "trimstr_scan_back c i str endPos =
     (if i > 0 then
        (if i < length str then
           (if str ! i = c then trimstr_scan_back c (i - 1) (str[i := 0]) (of_nat i)
            else Inr (str, endPos))
         else Inl OutOfBounds)
      else Inr (str, endPos))"
  by pat_completeness auto
termination
  by (relation "measure (\<lambda>(c, i, str, endPos). i)") auto

text \<open>
  Third loop: \<open>trimPos\<close> becomes the length of the run of \<open>c\<close> at the start of the
  buffer (the scan is bounded by \<open>strSize\<close>, not by \<open>endPos\<close>).
\<close>

function trimstr_scan_front :: "byte list \<Rightarrow> nat \<Rightarrow> byte \<Rightarrow> nat \<Rightarrow> uint32 \<Rightarrow> fault + uint32" where
  "trimstr_scan_front str strSize c i trimPos =
     (if i < strSize then
        (if i < length str then
           (if str ! i = c then trimstr_scan_front str strSize c (i + 1) (of_nat (i + 1))
            else Inr trimPos)
         else Inl OutOfBounds)
      else Inr trimPos)"
  by pat_completeness auto
termination
  by (relation "measure (\<lambda>(str, strSize, c, i, trimPos). strSize - i)") auto

declare trimstr_find_end.simps [simp del]
declare trimstr_scan_back.simps [simp del]
declare trimstr_scan_front.simps [simp del]

text \<open>
  \<^verbatim>\<open>trimstr\<close> itself: the three loops, then
  \<^verbatim>\<open>snprintf(str, endPos + 1 - trimPos, &str[trimPos])\<close>, whose size is computed in
  \<^verbatim>\<open>uint32_t\<close> and whose format is the buffer's own content from \<open>trimPos\<close> on.
  The result is the buffer after the call.
\<close>

definition trimstr :: "byte list \<Rightarrow> uint32 \<Rightarrow> byte \<Rightarrow> fault + byte list" where
  "trimstr str strSize c =
     (case trimstr_find_end str (unat strSize) 0 of Inl e \<Rightarrow> Inl e | Inr endPos0 \<Rightarrow>
     (case trimstr_scan_back c (unat (endPos0 - 1)) str endPos0 of Inl e \<Rightarrow> Inl e | Inr (str1, endPos) \<Rightarrow>
     (case trimstr_scan_front str1 (unat strSize) c 0 0 of Inl e \<Rightarrow> Inl e | Inr trimPos \<Rightarrow>
     (case snprintf_in_place str1 (unat (endPos + 1 - trimPos)) (unat trimPos) of
        Inl e \<Rightarrow> Inl e
      | Inr (str2, n) \<Rightarrow> Inr str2))))"


section \<open>The hardware and the memory the driver works on\<close>

text \<open>
  The driver reaches the world outside through the macros of \<^verbatim>\<open>wifi.h\<close> and the
  functions of the HAL; both are outside \<^verbatim>\<open>Core/Src/wifi.c\<close>. They are modelled here as
  operations on an explicit \<open>world\<close>, which records every call in a \<open>trace\<close>.
\<close>

text \<open>
  The status types. \<^verbatim>\<open>wifi.c\<close> compares against \<^verbatim>\<open>HAL_OK\<close> and \<^verbatim>\<open>WIFI_OK\<close> only; the
  other members of the HAL's type are those of the STM32 HAL, and \<open>WIFI_ERROR\<close> stands
  for whatever else \<^verbatim>\<open>wifi.h\<close> declares.
\<close>

datatype HAL_StatusTypeDef = HAL_OK | HAL_ERROR | HAL_BUSY | HAL_TIMEOUT

datatype WIFI_StatusTypeDef = WIFI_OK | WIFI_ERROR

datatype event =
    ReadyPolled bool
  | ModuleReset
  | NssEnabled
  | NssDisabled
  | SpiTransmit HAL_StatusTypeDef "byte list"
  | SpiReceive HAL_StatusTypeDef "byte list"

text \<open>
  The \<^verbatim>\<open>char\<close> arrays the functions get pointers to: the two module buffers
  \<^verbatim>\<open>wifiTxBuffer\<close> and \<^verbatim>\<open>wifiRxBuffer\<close>, and any other array of a caller.
\<close>

datatype ref = WifiTxBuffer | WifiRxBuffer | Buffer nat

text \<open>
  \<^item> \<open>mem\<close>: the content of each array (its length is the array's size);
  \<^item> \<open>ready\<close>: what the next polls of the CMDDATA_READY pin will read; after the last
    sample the pin stays low;
  \<^item> \<open>spi_rx\<close>: what the next calls of \<^verbatim>\<open>HAL_SPI_Receive\<close> will return, each a status
    and the two bytes of one 16-bit unit; after the last one the transfer times out;
  \<^item> \<open>spi_tx\<close>: the status the next calls of \<^verbatim>\<open>HAL_SPI_Transmit\<close> will return; after
    the last one the transfer times out;
  \<^item> \<open>stack\<close>: the bytes a fresh local array holds before it is written;
  \<^item> \<open>stray\<close>: \<open>stray w a\<close> is the NUL-terminated string stored at the address \<open>a\<close>,
    for an address made from a \<^verbatim>\<open>char\<close> value (no object of the program lives there);
    \<open>None\<close> when the address cannot be read;
  \<^item> \<open>trace\<close>: the hardware calls made so far, oldest first.
\<close>

record world =
  mem :: "ref \<Rightarrow> byte list"
  ready :: "bool list"
  spi_rx :: "(HAL_StatusTypeDef \<times> byte \<times> byte) list"
  spi_tx :: "HAL_StatusTypeDef list"
  stack :: "nat \<Rightarrow> byte"
  stray :: "byte \<Rightarrow> byte list option"
  trace :: "event list"

text \<open>The constants of \<^verbatim>\<open>wifi.h\<close> the functions use, as parameters.\<close>

record config =
  WIFI_RX_PADDING :: byte
  WIFI_TX_PADDING :: byte
  WIFI_MSG_POWERUP :: "byte list"
  WIFI_RX_BUFFER_SIZE :: uint16

text \<open>
  The device handle. The SPI handle in it is only passed on to the HAL, which has one
  bus in this model, so the functions that use nothing else of the handle do not take it.
\<close>

record WIFI_HandleTypeDef =
  securityType :: int
  passphrase :: "byte list"
  ssid :: "byte list"
  transportProtocol :: int
  port :: int
  ipAddress :: "byte list"

definition emit :: "event \<Rightarrow> world \<Rightarrow> world" where
  "emit e w = w\<lparr>trace := trace w @ [e]\<rparr>"

text \<open>
  Modelled from the spec: \<^verbatim>\<open>Error_Handler\<close> is defined outside the sources; the spec calls
  it a process-wide abort hook that never returns. The run ends with the fault
  \<open>ErrorHandler\<close> in the world it was called in.
\<close>

definition Error_Handler :: "world \<Rightarrow> (fault \<times> world) + 'a" where
  "Error_Handler w = Inl (ErrorHandler, w)"

text \<open>
  Modelled from the spec: \<^verbatim>\<open>WIFI_IS_CMDDATA_READY\<close> is a macro of \<^verbatim>\<open>wifi.h\<close>; the spec's
  Ready signal is a level that is polled, \<^verbatim>\<open>is_ready() -> bool\<close>.
\<close>

definition WIFI_IS_CMDDATA_READY :: "world \<Rightarrow> bool \<times> world" where
  "WIFI_IS_CMDDATA_READY w =
     (case ready w of
        [] \<Rightarrow> (False, emit (ReadyPolled False) w)
      | b # bs \<Rightarrow> (b, emit (ReadyPolled b) (w\<lparr>ready := bs\<rparr>)))"

text \<open>
  Modelled from the spec: \<^verbatim>\<open>WIFI_RESET_MODULE\<close>, \<^verbatim>\<open>WIFI_ENABLE_NSS\<close> and
  \<^verbatim>\<open>WIFI_DISABLE_NSS\<close> are macros of \<^verbatim>\<open>wifi.h\<close>; the spec's reset is a one-shot
  side-effecting call, select and deselect are two side-effecting calls.
\<close>

definition WIFI_RESET_MODULE :: "world \<Rightarrow> world" where
  "WIFI_RESET_MODULE w = emit ModuleReset w"

definition WIFI_ENABLE_NSS :: "world \<Rightarrow> world" where
  "WIFI_ENABLE_NSS w = emit NssEnabled w"

definition WIFI_DISABLE_NSS :: "world \<Rightarrow> world" where
  "WIFI_DISABLE_NSS w = emit NssDisabled w"

text \<open>
  Modelled from the spec: \<^verbatim>\<open>HAL_SPI_Receive(handle, buffer + off, 1, timeout)\<close> is the
  spec's transfer primitive, \<^verbatim>\<open>transfer(handle, buffer, unit_count, timeout) -> ok|fail\<close>;
  one unit is a pair of bytes, stored at \<open>off\<close> and \<open>off + 1\<close> of the array.
\<close>

definition HAL_SPI_Receive :: "ref \<Rightarrow> nat \<Rightarrow> world \<Rightarrow> (fault \<times> world) + (HAL_StatusTypeDef \<times> world)" where
  "HAL_SPI_Receive buffer off w =
     (case spi_rx w of
        [] \<Rightarrow> Inr (HAL_TIMEOUT, emit (SpiReceive HAL_TIMEOUT []) w)
      | (st, b0, b1) # rest \<Rightarrow>
          if st \<noteq> HAL_OK then Inr (st, emit (SpiReceive st []) (w\<lparr>spi_rx := rest\<rparr>))
          else if off + 1 < length (mem w buffer) then
            Inr (HAL_OK, emit (SpiReceive HAL_OK [b0, b1])
                   (w\<lparr>spi_rx := rest,
                      mem := (mem w)(buffer := (mem w buffer)[off := b0, off + 1 := b1])\<rparr>))
          else Inl (OutOfBounds, w))"

text \<open>
  Modelled from the spec: \<^verbatim>\<open>HAL_SPI_Transmit(handle, data, n, timeout)\<close> sends \<open>n\<close> units,
  the first \<open>2 * n\<close> bytes of \<open>data\<close>.
\<close>

definition HAL_SPI_Transmit :: "byte list \<Rightarrow> nat \<Rightarrow> world \<Rightarrow> (fault \<times> world) + (HAL_StatusTypeDef \<times> world)" where
  "HAL_SPI_Transmit data n w =
     (if 2 * n \<le> length data then
        (case spi_tx w of
           [] \<Rightarrow> Inr (HAL_TIMEOUT, emit (SpiTransmit HAL_TIMEOUT (take (2 * n) data)) w)
         | st # rest \<Rightarrow> Inr (st, emit (SpiTransmit st (take (2 * n) data)) (w\<lparr>spi_tx := rest\<rparr>)))
      else Inl (OutOfBounds, w))"

text \<open>\<^verbatim>\<open>memset(p, 0, n)\<close> and \<^verbatim>\<open>strcat(dst, src)\<close>, \<open>src\<close> given as the string it holds.\<close>

definition memset0 :: "byte list \<Rightarrow> nat \<Rightarrow> fault + byte list" where
  "memset0 p n = (if n \<le> length p then Inr (replicate n 0 @ drop n p) else Inl OutOfBounds)"

definition strcat :: "byte list \<Rightarrow> byte list \<Rightarrow> fault + byte list" where
  "strcat dst src =
     (case c_string dst of Inl e \<Rightarrow> Inl e | Inr d \<Rightarrow>
        if length d + length src < length dst
        then Inr (d @ src @ [0] @ drop (length d + length src + 1) dst)
        else Inl OutOfBounds)"

text \<open>
  \<^verbatim>\<open>strcmp(p, lit) != 0\<close> for a string literal \<open>lit\<close> (given without its NUL): the two
  strings are read in step up to the first difference or the common end.
\<close>

fun strcmp_differs :: "byte list \<Rightarrow> byte list \<Rightarrow> fault + bool" where
  "strcmp_differs [] lit = Inl OutOfBounds"
| "strcmp_differs (x # xs) [] = Inr (x \<noteq> 0)"
| "strcmp_differs (x # xs) (y # ys) =
     (if x \<noteq> y then Inr True else if x = 0 then Inr False else strcmp_differs xs ys)"

section \<open>\<^verbatim>\<open>WIFI_SPI_Receive\<close>\<close>

text \<open>
  The loop \<^verbatim>\<open>while (WIFI_IS_CMDDATA_READY()) { ... cnt += 2; }\<close>. The comparison
  \<^verbatim>\<open>cnt > (size - 2)\<close> is made in \<^verbatim>\<open>int\<close>, to which both \<^verbatim>\<open>uint16_t\<close> operands are
  promoted; \<^verbatim>\<open>||\<close> does not call \<^verbatim>\<open>HAL_SPI_Receive\<close> when the comparison holds.
\<close>

function WIFI_SPI_Receive_loop :: "ref \<Rightarrow> uint16 \<Rightarrow> uint16 \<Rightarrow> world \<Rightarrow> (fault \<times> world) + world" where
  "WIFI_SPI_Receive_loop buffer size' cnt w =
     (case WIFI_IS_CMDDATA_READY w of (rdy, w1) \<Rightarrow>
        if rdy then
          (if uint cnt > uint size' - 2 then Error_Handler w1
           else (case HAL_SPI_Receive buffer (unat cnt) w1 of
                   Inl e \<Rightarrow> Inl e
                 | Inr (st, w2) \<Rightarrow>
                     if st \<noteq> HAL_OK then Error_Handler w2
                     else WIFI_SPI_Receive_loop buffer size' (cnt + 2) w2))
        else Inr w1)"
  by pat_completeness auto
termination
  by (relation "measure (\<lambda>(buffer, size', cnt, w). length (ready w))")
     (auto simp: WIFI_IS_CMDDATA_READY_def HAL_SPI_Receive_def emit_def
           split: list.splits if_splits prod.splits)

declare WIFI_SPI_Receive_loop.simps [simp del]

definition WIFI_SPI_Receive :: "config \<Rightarrow> ref \<Rightarrow> uint16 \<Rightarrow> world \<Rightarrow> (fault \<times> world) + (WIFI_StatusTypeDef \<times> world)" where
  "WIFI_SPI_Receive cfg buffer size' w =
     (case memset0 (mem w buffer) (unat size') of Inl f \<Rightarrow> Inl (f, w) | Inr zeroed \<Rightarrow>
     (case WIFI_SPI_Receive_loop buffer size' 0 (w\<lparr>mem := (mem w)(buffer := zeroed)\<rparr>) of
        Inl e \<Rightarrow> Inl e
      | Inr w1 \<Rightarrow>
     (case trimstr (mem w1 buffer) (ucast size') (WIFI_RX_PADDING cfg) of
        Inl f \<Rightarrow> Inl (f, w1)
      | Inr trimmed \<Rightarrow> Inr (WIFI_OK, w1\<lparr>mem := (mem w1)(buffer := trimmed)\<rparr>))))"

section \<open>\<^verbatim>\<open>WIFI_SPI_Transmit\<close>\<close>

text \<open>
  \<^verbatim>\<open>bTx\<close> is a fresh local array of \<^verbatim>\<open>(size/2)*2 + 1\<close> bytes. The command is copied
  into it with \<^verbatim>\<open>snprintf(bTx, size, buffer)\<close>, the caller's buffer being the format.
  For an even \<open>size\<close> the code then calls \<^verbatim>\<open>strcat(bTx, (char) WIFI_TX_PADDING)\<close>. The
  second parameter of \<^verbatim>\<open>strcat\<close> is a pointer to a string; the argument is a \<^verbatim>\<open>char\<close>
  value, which is converted to the address of that number. What is appended is the
  string found at that address, \<open>stray w (WIFI_TX_PADDING cfg)\<close>, not the padding byte.
  Last, \<^verbatim>\<open>size/2\<close> units of \<^verbatim>\<open>bTx\<close> are sent.
\<close>

definition WIFI_SPI_Transmit :: "config \<Rightarrow> ref \<Rightarrow> uint16 \<Rightarrow> world \<Rightarrow> (fault \<times> world) + (WIFI_StatusTypeDef \<times> world)" where
  "WIFI_SPI_Transmit cfg buffer size' w =
     (let bTx = map (stack w) [0 ..< (unat size' div 2) * 2 + 1] in
      case snprintf bTx (unat size') (mem w buffer) of Inl f \<Rightarrow> Inl (f, w) | Inr (bTx1, n) \<Rightarrow>
     (case (if unat size' mod 2 = 0
            then (case stray w (WIFI_TX_PADDING cfg) of
                    None \<Rightarrow> Inl OutOfBounds
                  | Some s \<Rightarrow> strcat bTx1 s)
            else Inr bTx1) of
        Inl f \<Rightarrow> Inl (f, w)
      | Inr bTx2 \<Rightarrow>
     (case HAL_SPI_Transmit bTx2 (unat size' div 2) w of
        Inl e \<Rightarrow> Inl e
      | Inr (st, w1) \<Rightarrow> if st \<noteq> HAL_OK then Error_Handler w1 else Inr (WIFI_OK, w1))))"

section \<open>\<^verbatim>\<open>WIFI_Init\<close> and \<^verbatim>\<open>WIFI_SendATCommand\<close>\<close>

text \<open>
  The busy wait \<^verbatim>\<open>while (!WIFI_IS_CMDDATA_READY());\<close>. It ends at the first high sample;
  when the pin never goes high again the loop never ends, which is the fault \<open>Hang\<close>.
\<close>

function wait_until_ready :: "world \<Rightarrow> (fault \<times> world) + world" where
  "wait_until_ready w =
     (if ready w = [] then Inl (Hang, w)
      else (case WIFI_IS_CMDDATA_READY w of (rdy, w1) \<Rightarrow>
              if \<not> rdy then wait_until_ready w1 else Inr w1))"
  by pat_completeness auto
termination
  by (relation "measure (\<lambda>w. length (ready w))")
     (auto simp: WIFI_IS_CMDDATA_READY_def emit_def split: list.splits)

declare wait_until_ready.simps [simp del]

definition WIFI_Init :: "config \<Rightarrow> world \<Rightarrow> (fault \<times> world) + (WIFI_StatusTypeDef \<times> world)" where
  "WIFI_Init cfg w =
     (case wait_until_ready (WIFI_ENABLE_NSS (WIFI_RESET_MODULE w)) of Inl e \<Rightarrow> Inl e | Inr w1 \<Rightarrow>
     (case WIFI_SPI_Receive cfg WifiRxBuffer (WIFI_RX_BUFFER_SIZE cfg) w1 of
        Inl e \<Rightarrow> Inl e
      | Inr (st, w2) \<Rightarrow>
          if st \<noteq> WIFI_OK then Error_Handler w2
          else (case strcmp_differs (mem w2 WifiRxBuffer) (WIFI_MSG_POWERUP cfg) of
                  Inl f \<Rightarrow> Inl (f, w2)
                | Inr differs \<Rightarrow>
                    if differs then Error_Handler w2
                    else Inr (WIFI_OK, WIFI_DISABLE_NSS w2))))"

definition WIFI_SendATCommand ::
  "config \<Rightarrow> ref \<Rightarrow> uint16 \<Rightarrow> ref \<Rightarrow> uint16 \<Rightarrow> world \<Rightarrow> (fault \<times> world) + (WIFI_StatusTypeDef \<times> world)" where
  "WIFI_SendATCommand cfg bCmd sizeCmd bRx sizeRx w =
     (case wait_until_ready w of Inl e \<Rightarrow> Inl e | Inr w1 \<Rightarrow>
     (case WIFI_SPI_Transmit cfg bCmd sizeCmd (WIFI_ENABLE_NSS w1) of
        Inl e \<Rightarrow> Inl e
      | Inr (st, w2) \<Rightarrow>
          if st \<noteq> WIFI_OK then Error_Handler w2
          else
     (case wait_until_ready (WIFI_DISABLE_NSS w2) of Inl e \<Rightarrow> Inl e | Inr w3 \<Rightarrow>
     (case WIFI_SPI_Receive cfg bRx sizeRx (WIFI_ENABLE_NSS w3) of
        Inl e \<Rightarrow> Inl e
      | Inr (st', w4) \<Rightarrow>
          if st' \<noteq> WIFI_OK then Error_Handler w4
          else (case WIFI_IS_CMDDATA_READY w4 of (rdy, w5) \<Rightarrow>
                  if rdy then Error_Handler w5
                  else Inr (WIFI_OK, WIFI_DISABLE_NSS w5))))))"


section \<open>\<^verbatim>\<open>WIFI_CreateNewNetwork\<close>\<close>

text \<open>
  The decimal digits \<^verbatim>\<open>%d\<close> prints, and \<^verbatim>\<open>sprintf(dst, ...)\<close> for an output \<open>out\<close>
  that has already been formatted: the output and its NUL go to the start of \<open>dst\<close>,
  and the length of the output is returned.
\<close>

function dec_digits :: "nat \<Rightarrow> byte list" where
  "dec_digits n = (if n < 10 then [48 + of_nat n] else dec_digits (n div 10) @ [48 + of_nat (n mod 10)])"
  by pat_completeness auto
termination
  by (relation "measure (\<lambda>n. n)") auto

declare dec_digits.simps [simp del]

definition print_d :: "int \<Rightarrow> byte list" where
  "print_d i = (if i < 0 then 45 # dec_digits (nat (- i)) else dec_digits (nat i))"

definition sprintf :: "byte list \<Rightarrow> byte list \<Rightarrow> fault + byte list \<times> nat" where
  "sprintf dst out =
     (if length out < length dst then Inr (out @ [0] @ drop (length out + 1) dst, length out)
      else Inl OutOfBounds)"

text \<open>
  One command of the sequence:
  \<^verbatim>\<open>msgLength = sprintf(wifiTxBuffer, ...);\<close>
  \<^verbatim>\<open>WIFI_SendATCommand(hwifi, wifiTxBuffer, msgLength+1, wifiRxBuffer, WIFI_RX_BUFFER_SIZE);\<close>
  where \<open>out\<close> is the formatted command. \<^verbatim>\<open>msgLength+1\<close> becomes a \<^verbatim>\<open>uint16_t\<close>.
\<close>

definition send_formatted :: "config \<Rightarrow> byte list \<Rightarrow> world \<Rightarrow> (fault \<times> world) + (WIFI_StatusTypeDef \<times> world)" where
  "send_formatted cfg out w =
     (case sprintf (mem w WifiTxBuffer) out of
        Inl f \<Rightarrow> Inl (f, w)
      | Inr (tx, msgLength) \<Rightarrow>
          WIFI_SendATCommand cfg WifiTxBuffer (of_nat (msgLength + 1)) WifiRxBuffer
            (WIFI_RX_BUFFER_SIZE cfg) (w\<lparr>mem := (mem w)(WifiTxBuffer := tx)\<rparr>))"

text \<open>
  The five commands, lines 135 to 153: \<^verbatim>\<open>"A1=%d\r"\<close> with the security type,
  \<^verbatim>\<open>"A2=%s\r"\<close> with the passphrase, \<^verbatim>\<open>"AS=0,%s\r"\<close> with the SSID, \<^verbatim>\<open>"AD\r"\<close> and
  \<^verbatim>\<open>"A?\r"\<close>. The status each exchange returns is not looked at.
\<close>

definition WIFI_CreateNewNetwork_commands :: "config \<Rightarrow> WIFI_HandleTypeDef \<Rightarrow> world \<Rightarrow> (fault \<times> world) + world" where
  "WIFI_CreateNewNetwork_commands cfg hwifi w =
     (case send_formatted cfg ([65, 49, 61] @ print_d (securityType hwifi) @ [13]) w of
        Inl e \<Rightarrow> Inl e | Inr (st1, w1) \<Rightarrow>
     (case c_string (passphrase hwifi) of Inl f \<Rightarrow> Inl (f, w1) | Inr pass \<Rightarrow>
     (case send_formatted cfg ([65, 50, 61] @ pass @ [13]) w1 of
        Inl e \<Rightarrow> Inl e | Inr (st2, w2) \<Rightarrow>
     (case c_string (ssid hwifi) of Inl f \<Rightarrow> Inl (f, w2) | Inr name \<Rightarrow>
     (case send_formatted cfg ([65, 83, 61, 48, 44] @ name @ [13]) w2 of
        Inl e \<Rightarrow> Inl e | Inr (st3, w3) \<Rightarrow>
     (case send_formatted cfg [65, 68, 13] w3 of
        Inl e \<Rightarrow> Inl e | Inr (st4, w4) \<Rightarrow>
     (case send_formatted cfg [65, 63, 13] w4 of
        Inl e \<Rightarrow> Inl e | Inr (st5, w5) \<Rightarrow> Inr w5)))))))"

text \<open>
  Lines 155 to 161, on the content \<open>rx\<close> of \<^verbatim>\<open>wifiRxBuffer\<close>:
  \<^verbatim>\<open>ipStart = strstr(wifiRxBuffer, ",") + 1\<close>, \<^verbatim>\<open>ipEnd = strstr(ipStart, ",")\<close>, then
  \<^verbatim>\<open>hwifi->ipAddress\<close> is cleared and filled by
  \<^verbatim>\<open>snprintf(hwifi->ipAddress, ipEnd - ipStart + 1, ipStart)\<close>. The comma is byte 44.
  \<^verbatim>\<open>strstr\<close> returns a null pointer when there is no comma; the code uses it unchecked.
\<close>

definition WIFI_CreateNewNetwork_address :: "WIFI_HandleTypeDef \<Rightarrow> byte list \<Rightarrow> fault + WIFI_HandleTypeDef" where
  "WIFI_CreateNewNetwork_address hwifi rx =
     (case c_string rx of Inl f \<Rightarrow> Inl f | Inr s \<Rightarrow>
        if 44 \<notin> set s then Inl NullPointer
        else
          (let ipStart = length (takeWhile (\<lambda>b. b \<noteq> 44) s) + 1 in
           if 44 \<notin> set (drop ipStart s) then Inl NullPointer
           else
             (let ipEnd = ipStart + length (takeWhile (\<lambda>b. b \<noteq> 44) (drop ipStart s)) in
              case memset0 (ipAddress hwifi) (length (ipAddress hwifi)) of
                Inl f \<Rightarrow> Inl f
              | Inr cleared \<Rightarrow>
                  (case snprintf cleared (ipEnd - ipStart + 1) (drop ipStart rx) of
                     Inl f \<Rightarrow> Inl f
                   | Inr (ip, n) \<Rightarrow> Inr (hwifi\<lparr>ipAddress := ip\<rparr>)))))"

definition WIFI_CreateNewNetwork ::
  "config \<Rightarrow> WIFI_HandleTypeDef \<Rightarrow> world \<Rightarrow> (fault \<times> world) + (WIFI_StatusTypeDef \<times> WIFI_HandleTypeDef \<times> world)" where
  "WIFI_CreateNewNetwork cfg hwifi w =
     (case WIFI_CreateNewNetwork_commands cfg hwifi w of Inl e \<Rightarrow> Inl e | Inr w5 \<Rightarrow>
     (case WIFI_CreateNewNetwork_address hwifi (mem w5 WifiRxBuffer) of
        Inl f \<Rightarrow> Inl (f, w5)
      | Inr hwifi' \<Rightarrow> Inr (WIFI_OK, hwifi', w5)))"

section \<open>The order of the hardware calls in one exchange\<close>

text \<open>
  The states of one command exchange, and the hardware call that leads from each to the
  next. Polling the pin low keeps a wait state; every unit received in the read phase is
  announced by a high pin. Every other call in a state is out of order. \<open>Overflowed\<close> is
  the state after the pin was read high in the overflow check; \<open>Done\<close> the state after
  the final deselect.
\<close>

datatype phase =
    WaitReadyForCmd | CmdReady | SelectedWrite | Written
  | WaitReadyForResp | RespReady | SelectedRead | Receiving
  | OverflowCheck | Checked | Overflowed | Done

fun exchange_step :: "phase \<Rightarrow> event \<Rightarrow> phase option" where
  "exchange_step WaitReadyForCmd (ReadyPolled b) = Some (if b then CmdReady else WaitReadyForCmd)"
| "exchange_step CmdReady NssEnabled = Some SelectedWrite"
| "exchange_step SelectedWrite (SpiTransmit st d) = Some Written"
| "exchange_step Written NssDisabled = Some WaitReadyForResp"
| "exchange_step WaitReadyForResp (ReadyPolled b) = Some (if b then RespReady else WaitReadyForResp)"
| "exchange_step RespReady NssEnabled = Some SelectedRead"
| "exchange_step SelectedRead (ReadyPolled b) = Some (if b then Receiving else OverflowCheck)"
| "exchange_step Receiving (SpiReceive st d) = Some SelectedRead"
| "exchange_step OverflowCheck (ReadyPolled b) = Some (if b then Overflowed else Checked)"
| "exchange_step Checked NssDisabled = Some Done"
| "exchange_step p e = None"

fun exchange_run :: "phase \<Rightarrow> event list \<Rightarrow> phase option" where
  "exchange_run p [] = Some p"
| "exchange_run p (e # es) =
     (case exchange_step p e of None \<Rightarrow> None | Some q \<Rightarrow> exchange_run q es)"

text \<open>Whether a hardware call sends something to the module.\<close>

fun is_transmit :: "event \<Rightarrow> bool" where
  "is_transmit (SpiTransmit st d) = True"
| "is_transmit e = False"

text \<open>
  \<open>advances p w w' q\<close>: the trace of \<open>w'\<close> is the trace of \<open>w\<close> followed by calls that
  lead the exchange from state \<open>p\<close> to state \<open>q\<close>, every one in order.
\<close>

definition advances :: "phase \<Rightarrow> world \<Rightarrow> world \<Rightarrow> phase \<Rightarrow> bool" where
  "advances p w w' q \<longleftrightarrow>
     take (length (trace w)) (trace w') = trace w
     \<and> exchange_run p (drop (length (trace w)) (trace w')) = Some q"


section \<open>Outcomes, and a concrete configuration and world\<close>

text \<open>The world a run ends in, whether it returns or ends in a fault.\<close>

definition final_world :: "(fault \<times> world) + ('a \<times> world) \<Rightarrow> world" where
  "final_world r = (case r of Inl (f, w) \<Rightarrow> w | Inr (x, w) \<Rightarrow> w)"

text \<open>
  A configuration and a world to run the functions on: receive padding \<^verbatim>\<open>0x15\<close>,
  transmit padding \<^verbatim>\<open>0x0A\<close>, the prompt \<^verbatim>\<open>"\r\n> "\<close> as power-up banner, arrays of 8
  bytes. Nothing is pending in \<open>idle_world\<close>; the theorems below put the pin samples
  and the SPI transfers of each scenario into it.
\<close>

definition example_config :: config where
  "example_config = \<lparr>WIFI_RX_PADDING = 21, WIFI_TX_PADDING = 10, WIFI_MSG_POWERUP = [13, 10, 62, 32],
            WIFI_RX_BUFFER_SIZE = 8\<rparr>"

definition idle_world :: world where
  "idle_world = \<lparr>mem = (\<lambda>r. [0, 0, 0, 0, 0, 0, 0, 0]), ready = [], spi_rx = [], spi_tx = [],
             stack = (\<lambda>i. 170), stray = (\<lambda>a. Some []), trace = []\<rparr>"

text \<open>
  A bring-up scenario for \<^verbatim>\<open>WIFI_CreateNewNetwork\<close>: arrays of 20 bytes; the module
  answers each of the first four commands with two padding bytes and \<^verbatim>\<open>"OK"\<close>, and the
  status query with two padding bytes and \<^verbatim>\<open>"AT,10.0.0.5,END\r"\<close>; the pin is high once
  before each command, once before each response and once before each unit of it.
\<close>

definition net_config :: config where
  "net_config = example_config\<lparr>WIFI_RX_BUFFER_SIZE := 20\<rparr>"

definition net_handle :: WIFI_HandleTypeDef where
  "net_handle = \<lparr>securityType = 3, passphrase = [112, 119, 0], ssid = [110, 101, 116, 0],
                  transportProtocol = 0, port = 80,
                  ipAddress = [0, 0, 0, 0, 0, 0, 0, 0, 0, 0, 0, 0, 0, 0, 0, 0]\<rparr>"

definition net_world :: world where
  "net_world = idle_world
     \<lparr>mem := (\<lambda>r. [0, 0, 0, 0, 0, 0, 0, 0, 0, 0, 0, 0, 0, 0, 0, 0, 0, 0, 0, 0]),
      ready := [True, True, True, True, False, False,
                True, True, True, True, False, False,
                True, True, True, True, False, False,
                True, True, True, True, False, False,
                True, True, True, True, True, True, True, True, True, True, True, False, False],
      spi_rx := [(HAL_OK, 21, 21), (HAL_OK, 79, 75), (HAL_OK, 21, 21), (HAL_OK, 79, 75),
                 (HAL_OK, 21, 21), (HAL_OK, 79, 75), (HAL_OK, 21, 21), (HAL_OK, 79, 75),
                 (HAL_OK, 21, 21),
                 (HAL_OK, 65, 84), (HAL_OK, 44, 49), (HAL_OK, 48, 46), (HAL_OK, 48, 46),
                 (HAL_OK, 48, 46), (HAL_OK, 53, 44), (HAL_OK, 69, 78), (HAL_OK, 68, 13)],
      spi_tx := [HAL_OK, HAL_OK, HAL_OK, HAL_OK, HAL_OK]\<rparr>"


section \<open>Properties of \<^verbatim>\<open>trimstr\<close>\<close>

lemma unat_max_uint32: "unat (- 1 :: uint32) = 4294967295"
  by (simp add: unsigned_minus_1_eq_mask mask_eq_exp_minus_1)

lemmas trimstr_unfold =
  trimstr_def trimstr_find_end.simps trimstr_scan_back.simps trimstr_scan_front.simps
  snprintf_in_place_def snprintf_def c_string_def unat_max_uint32

text \<open>
  C2. The claim: the backward scan of \<^verbatim>\<open>trimstr\<close> reads only indices inside the buffer
  and never runs past index 0, also when the end-of-string position is 0 (the first byte
  of the buffer is NUL).
  The code does not do that. When the first byte is NUL the first loop leaves
  \<open>endPos = 0\<close>, the scan starts at \<^verbatim>\<open>endPos - 1\<close>, which wraps to 4294967295 in
  \<^verbatim>\<open>uint32_t\<close>, the loop condition \<^verbatim>\<open>i > 0\<close> holds, and \<^verbatim>\<open>str[4294967295]\<close> is
  read: for every buffer of fewer than \<open>2^32\<close> bytes, every positive \<open>strSize\<close> and
  every \<open>c\<close>, the run ends in an access outside the buffer.
\<close>

theorem trimstr_scan_back_underflow:
  assumes "str \<noteq> []" and "str ! 0 = 0" and "0 < strSize" and "length str < 2 ^ 32"
  shows "trimstr_find_end str (unat strSize) 0 = Inr 0
       \<and> unat ((0 :: uint32) - 1) = 4294967295
       \<and> trimstr_scan_back c (unat ((0 :: uint32) - 1)) str 0 = Inl OutOfBounds
       \<and> trimstr str strSize c = Inl OutOfBounds"
proof -
  from assms(3) have pos: "0 < unat strSize"
    by (simp add: word_less_nat_alt)
  from assms(1) have len: "0 < length str"
    by simp
  have e: "trimstr_find_end str (unat strSize) 0 = Inr 0"
    using pos len assms(2) by (simp add: trimstr_find_end.simps)
  have u: "unat ((0 :: uint32) - 1) = 4294967295"
    by (simp add: unat_max_uint32)
  have b: "trimstr_scan_back c 4294967295 str 0 = Inl OutOfBounds"
    using assms(4) by (simp add: trimstr_scan_back.simps)
  show ?thesis
    using e b u by (simp add: trimstr_def)
qed

theorem trimstr_scan_back_underflow_witness:
  "[0 :: byte] \<noteq> [] \<and> [0 :: byte] ! 0 = 0 \<and> (0 :: uint32) < 1 \<and> length [0 :: byte] < 2 ^ 32
   \<and> trimstr_scan_back 21 (unat ((0 :: uint32) - 1)) [0] 0 = Inl OutOfBounds
   \<and> trimstr [0] 1 21 = Inl OutOfBounds"
  using trimstr_scan_back_underflow [of "[0]" 1 21] by (simp add: unat_max_uint32)

text \<open>
  C1. The claim: trimming is idempotent, \<^verbatim>\<open>trimstr(trimstr(s, c), c) == trimstr(s, c)\<close>
  for every sentinel and every NUL-terminated string.
  The code does not do that. The string that holds one sentinel byte (here 21, hex 15)
  is trimmed to the empty string; trimming that result again starts the backward scan
  at index 4294967295 and leaves the buffer.
\<close>

theorem trimstr_twice_fails:
  "trimstr [21, 0] 2 21 = Inr [0, 0] \<and> trimstr [0, 0] 2 21 = Inl OutOfBounds"
  by (simp add: trimstr_unfold)

text \<open>
  C4. The claim: for every length \<open>n \<ge> 1\<close> and every sentinel byte, a buffer that holds
  only sentinel bytes is trimmed to the empty string, with no index underflow.
  That fails for the sentinel NUL: the first NUL is the end of the string, so a buffer of
  NUL bytes holds the empty string, its end is at position 0, and the run leaves the
  buffer in the backward scan.
\<close>

theorem trimstr_all_nul_counterexample:
  "trimstr [0, 0] 2 0 = Inl OutOfBounds"
  by (simp add: trimstr_unfold)

lemma find_end_all_sentinel:
  assumes "c \<noteq> 0"
  shows "i \<le> n \<Longrightarrow> trimstr_find_end (replicate n c @ [0]) (n + 1) i = Inr (of_nat n)"
proof (induction "n - i" arbitrary: i)
  case 0
  then have "i = n" by simp
  then show ?case
    by (simp add: trimstr_find_end.simps [of _ _ n] nth_append)
next
  case (Suc d)
  then have lt: "i < n" and d: "d = n - (i + 1)" and le: "i + 1 \<le> n" by simp_all
  from Suc.hyps(1) [OF d le] lt assms show ?case
    by (simp add: trimstr_find_end.simps [of _ _ i] nth_append)
qed

lemma replicate_snoc_update: "(replicate (Suc k) c @ zs)[k := z] = replicate k c @ z # zs"
  by (induction k) auto

lemma scan_back_all_sentinel:
  assumes "c \<noteq> 0"
  shows "trimstr_scan_back c i (replicate (i + 1) c @ replicate m 0) e
           = Inr (c # replicate (i + m) 0, if i = 0 then e else 1)"
proof (induction i arbitrary: m e)
  case 0
  show ?case by (simp add: trimstr_scan_back.simps [of _ 0])
next
  case (Suc i)
  have upd: "(replicate (Suc (Suc i)) c @ replicate m 0)[Suc i := 0]
               = replicate (Suc i) c @ replicate (Suc m) 0"
    using replicate_snoc_update [of "Suc i" c "replicate m 0" 0]
    by (simp del: replicate_Suc add: replicate_Suc [of m])
  have "trimstr_scan_back c (Suc i) (replicate (Suc i + 1) c @ replicate m 0) e
          = trimstr_scan_back c i (replicate (i + 1) c @ replicate (Suc m) 0) (of_nat (Suc i))"
    by (subst trimstr_scan_back.simps) (simp add: nth_append upd del: replicate_Suc replicate.simps)
  also have "\<dots> = Inr (c # replicate (i + Suc m) 0, if i = 0 then of_nat (Suc i) else 1)"
    by (rule Suc.IH)
  finally show ?case by auto
qed


text \<open>
  C4, amended. For every length \<open>n \<ge> 1\<close> and every sentinel byte \<open>c\<close> other than NUL, the
  NUL-terminated buffer of \<open>n\<close> sentinel bytes (its capacity \<open>n + 1\<close> a \<^verbatim>\<open>uint32_t\<close>) is
  trimmed to the empty string: the backward scan clears the bytes down to index 1 and
  stops there, the forward scan finds the one sentinel left at index 0, and
  \<^verbatim>\<open>snprintf\<close> with size 1 writes the terminator over it. No index leaves the buffer.
\<close>

theorem trimstr_all_sentinel:
  assumes c: "c \<noteq> 0" and n: "1 \<le> n" and fits: "n + 1 < 2 ^ 32"
  shows "trimstr (replicate n c @ [0]) (of_nat (n + 1)) c = Inr (replicate (n + 1) 0)
       \<and> c_string (replicate (n + 1) 0) = Inr []"
proof -
  obtain k where k: "n = Suc k" using n by (cases n) auto
  have size: "unat (of_nat (n + 1) :: uint32) = n + 1"
    using fits by (simp add: unat_of_nat del: of_nat_Suc of_nat_add)
  have e: "trimstr_find_end (replicate n c @ [0]) (n + 1) 0 = Inr (of_nat n)"
    using find_end_all_sentinel [OF c, of 0 n] by simp
  have start: "unat (of_nat n - 1 :: uint32) = k"
  proof -
    have "(of_nat n - 1 :: uint32) = of_nat k" by (simp add: k)
    moreover have "k < 2 ^ 32" using fits k by simp
    ultimately show ?thesis by (simp add: unat_of_nat)
  qed
  have b: "trimstr_scan_back c k (replicate n c @ [0]) (of_nat n) = Inr (c # replicate n 0, 1)"
    using scan_back_all_sentinel [OF c, of k 1 "of_nat n"] k
    by (cases k) simp_all
  have f: "trimstr_scan_front (c # replicate n 0) (n + 1) c 0 0 = Inr 1"
    using c k by (simp add: trimstr_scan_front.simps [of _ _ _ 0] trimstr_scan_front.simps [of _ _ _ "Suc 0"])
  have s: "snprintf_in_place (c # replicate n 0) (unat (1 + 1 - 1 :: uint32)) (unat (1 :: uint32))
             = Inr (replicate (n + 1) 0, 0)"
    using k by (simp add: snprintf_in_place_def snprintf_def c_string_def)
  have "trimstr (replicate n c @ [0]) (of_nat (n + 1)) c = Inr (replicate (n + 1) 0)"
    unfolding trimstr_def size
    by (simp only: e start b f s sum.case prod.case)
  then show ?thesis
    by (simp add: c_string_def)
qed

theorem trimstr_all_sentinel_witness:
  "(21 :: byte) \<noteq> 0 \<and> (1 :: nat) \<le> 3 \<and> (3 :: nat) + 1 < 2 ^ 32
   \<and> trimstr [21, 21, 21, 0] 4 21 = Inr [0, 0, 0, 0]
   \<and> c_string [0, 0, 0, 0] = Inr []"
  using trimstr_all_sentinel [of 21 3] by (simp add: numeral_3_eq_3)

text \<open>
  C3. The claim: the bytes \<^verbatim>\<open>00 41 41 41 00 00\<close> (capacity 7), trimmed with sentinel
  \<^verbatim>\<open>00\<close>, give \<^verbatim>\<open>"AAA"\<close>, and \<^verbatim>\<open>00 00 h e l l o 00\<close> with sentinel \<^verbatim>\<open>00\<close> gives
  \<^verbatim>\<open>"hello"\<close>.
  That fails on the code: the first NUL is the end of the string, so a buffer that
  starts with NUL holds the empty string whatever follows, and the run leaves the buffer
  in the backward scan.
\<close>

theorem trimstr_nul_sentinel_counterexample:
  "trimstr [0, 65, 65, 65, 0, 0, 0] 7 0 = Inl OutOfBounds
   \<and> trimstr [0, 0, 104, 101, 108, 108, 111, 0] 8 0 = Inl OutOfBounds"
  by (simp add: trimstr_unfold)

text \<open>
  C3, amended. With a sentinel \<open>c\<close> other than NUL, the NUL-terminated buffers
  \<^verbatim>\<open>c A A A c c\<close> (capacity 7, \<open>c\<close> not \<^verbatim>\<open>A\<close>) and \<^verbatim>\<open>c c h e l l o c\<close> (capacity 9,
  \<open>c\<close> neither \<^verbatim>\<open>h\<close> nor \<^verbatim>\<open>o\<close>) are trimmed to \<^verbatim>\<open>"AAA"\<close> and \<^verbatim>\<open>"hello"\<close>: the
  leading run and the trailing run of the sentinel are both stripped.
\<close>

theorem trimstr_strips_both_ends:
  assumes "c \<noteq> 0"
  shows "(c \<noteq> 65 \<longrightarrow>
            trimstr [c, 65, 65, 65, c, c, 0] 7 c = Inr [65, 65, 65, 0, 0, 0, 0]
            \<and> c_string [65, 65, 65, 0, 0, 0, 0] = Inr [65, 65, 65])
       \<and> (c \<noteq> 104 \<and> c \<noteq> 111 \<longrightarrow>
            trimstr [c, c, 104, 101, 108, 108, 111, c, 0] 9 c
              = Inr [104, 101, 108, 108, 111, 0, 111, 0, 0]
            \<and> c_string [104, 101, 108, 108, 111, 0, 111, 0, 0] = Inr [104, 101, 108, 108, 111])"
  using assms by (simp add: trimstr_unfold)

theorem trimstr_strips_both_ends_witness:
  "(21 :: byte) \<noteq> 0 \<and> (21 :: byte) \<noteq> 65 \<and> (21 :: byte) \<noteq> 104 \<and> (21 :: byte) \<noteq> 111
   \<and> trimstr [21, 65, 65, 65, 21, 21, 0] 7 21 = Inr [65, 65, 65, 0, 0, 0, 0]
   \<and> trimstr [21, 21, 104, 101, 108, 108, 111, 21, 0] 9 21
        = Inr [104, 101, 108, 108, 111, 0, 111, 0, 0]"
  using trimstr_strips_both_ends [of 21] by simp


section \<open>The receive loop\<close>

lemma cursor_fits:
  fixes cnt size' :: uint16
  assumes "\<not> uint cnt > uint size' - 2"
  shows "unat cnt + 2 \<le> unat size'"
proof -
  have "int (unat cnt) + 2 \<le> int (unat size')" using assms by simp
  then show ?thesis by linarith
qed

lemma cursor_advances:
  fixes cnt size' :: uint16
  assumes "\<not> uint cnt > uint size' - 2"
  shows "uint (cnt + 2) = uint cnt + 2"
proof -
  have "uint size' < 2 ^ 16" using uint_lt2p [of size'] by simp
  with assms have "uint cnt + uint (2 :: uint16) < 2 ^ LENGTH(16)" by simp
  then show ?thesis by (simp add: uint_add_lem [THEN iffD1])
qed

lemma WIFI_IS_CMDDATA_READY_mem:
  "WIFI_IS_CMDDATA_READY w = (rdy, w1) \<Longrightarrow> mem w1 = mem w"
  by (auto simp: WIFI_IS_CMDDATA_READY_def emit_def split: list.splits)

lemma WIFI_IS_CMDDATA_READY_trace:
  "WIFI_IS_CMDDATA_READY w = (rdy, w1) \<Longrightarrow> trace w1 = trace w @ [ReadyPolled rdy]"
  by (auto simp: WIFI_IS_CMDDATA_READY_def emit_def split: list.splits)

lemma WIFI_IS_CMDDATA_READY_high:
  "ready w = True # rs \<Longrightarrow>
   WIFI_IS_CMDDATA_READY w = (True, emit (ReadyPolled True) (w\<lparr>ready := rs\<rparr>))"
  by (simp add: WIFI_IS_CMDDATA_READY_def)

lemma HAL_SPI_Receive_length:
  "HAL_SPI_Receive buffer off w = Inr (st, w2) \<Longrightarrow> length (mem w2 b) = length (mem w b)"
  by (auto simp: HAL_SPI_Receive_def emit_def split: list.splits if_splits prod.splits)

lemma HAL_SPI_Receive_ready:
  "HAL_SPI_Receive buffer off w = Inr (st, w2) \<Longrightarrow> ready w2 = ready w"
  by (auto simp: HAL_SPI_Receive_def emit_def split: list.splits if_splits prod.splits)

lemma HAL_SPI_Receive_in_bounds:
  "off + 1 < length (mem w buffer) \<Longrightarrow> HAL_SPI_Receive buffer off w \<noteq> Inl e"
  by (auto simp: HAL_SPI_Receive_def emit_def split: list.splits if_splits prod.splits)

lemma WIFI_SPI_Receive_loop_unfold:
  assumes "WIFI_IS_CMDDATA_READY w = (rdy, w1)"
  shows "WIFI_SPI_Receive_loop buffer size' cnt w =
     (if rdy then
        (if uint cnt > uint size' - 2 then Error_Handler w1
         else (case HAL_SPI_Receive buffer (unat cnt) w1 of
                 Inl e \<Rightarrow> Inl e
               | Inr (st, w2) \<Rightarrow>
                   if st \<noteq> HAL_OK then Error_Handler w2
                   else WIFI_SPI_Receive_loop buffer size' (cnt + 2) w2))
      else Inr w1)"
  by (subst WIFI_SPI_Receive_loop.simps) (simp add: assms)

lemma WIFI_SPI_Receive_loop_in_bounds:
  "unat size' \<le> length (mem w buffer) \<Longrightarrow>
   WIFI_SPI_Receive_loop buffer size' cnt w \<noteq> Inl (OutOfBounds, w')"
proof (induction buffer size' cnt w rule: WIFI_SPI_Receive_loop.induct)
  case (1 buffer size' cnt w)
  obtain rdy w1 where p: "WIFI_IS_CMDDATA_READY w = (rdy, w1)"
    by (cases "WIFI_IS_CMDDATA_READY w")
  note unf = WIFI_SPI_Receive_loop_unfold [OF p, of buffer size' cnt]
  from p have m1: "mem w1 = mem w" by (rule WIFI_IS_CMDDATA_READY_mem)
  show ?case
  proof (cases "rdy \<and> \<not> uint cnt > uint size' - 2")
    case False
    then show ?thesis
      by (cases rdy) (simp_all add: unf Error_Handler_def)
  next
    case True
    then have nov: "\<not> uint cnt > uint size' - 2" by simp
    then have fits: "unat cnt + 2 \<le> unat size'" by (rule cursor_fits)
    with "1.prems" m1 have inb: "unat cnt + 1 < length (mem w1 buffer)" by simp
    show ?thesis
    proof (cases "HAL_SPI_Receive buffer (unat cnt) w1")
      case (Inl e)
      with inb show ?thesis
        by (simp add: HAL_SPI_Receive_in_bounds)
    next
      case (Inr r)
      obtain st w2 where r: "r = (st, w2)" by (cases r)
      show ?thesis
      proof (cases "st = HAL_OK")
        case False
        with True Inr r show ?thesis
          by (simp add: unf Error_Handler_def)
      next
        case ok: True
        have "length (mem w2 buffer) = length (mem w1 buffer)"
          using Inr r by (simp add: HAL_SPI_Receive_length)
        with "1.prems" m1 have le: "unat size' \<le> length (mem w2 buffer)" by simp
        have "WIFI_SPI_Receive_loop buffer size' (cnt + 2) w2 \<noteq> Inl (OutOfBounds, w')"
          using "1.IH" [OF p [symmetric] _ nov Inr r [symmetric] _ le] True ok by simp
        with True Inr r ok show ?thesis
          by (simp add: unf)
      qed
    qed
  qed
qed

lemma WIFI_SPI_Receive_loop_escalates:
  "unat size' \<le> length (mem w buffer) \<Longrightarrow>
   uint size' - 2 < uint cnt + 2 * int k \<Longrightarrow>
   k < length (ready w) \<Longrightarrow>
   \<forall>b \<in> set (take (Suc k) (ready w)). b \<Longrightarrow>
   \<exists>w'. WIFI_SPI_Receive_loop buffer size' cnt w = Inl (ErrorHandler, w')"
proof (induction buffer size' cnt w arbitrary: k rule: WIFI_SPI_Receive_loop.induct)
  case (1 buffer size' cnt w)
  from "1.prems"(3,4) obtain rs where rs: "ready w = True # rs"
    by (cases "ready w") auto
  define w1 where "w1 = emit (ReadyPolled True) (w\<lparr>ready := rs\<rparr>)"
  have p: "WIFI_IS_CMDDATA_READY w = (True, w1)"
    using rs by (simp add: WIFI_IS_CMDDATA_READY_high w1_def)
  note unf = WIFI_SPI_Receive_loop_unfold [OF p, of buffer size' cnt]
  have m1: "mem w1 = mem w" and r1: "ready w1 = rs"
    by (simp_all add: w1_def emit_def)
  show ?case
  proof (cases "uint cnt > uint size' - 2")
    case True
    then show ?thesis by (simp add: unf Error_Handler_def)
  next
    case False
    then have fits: "unat cnt + 2 \<le> unat size'" by (rule cursor_fits)
    with "1.prems"(1) m1 have inb: "unat cnt + 1 < length (mem w1 buffer)" by simp
    from False "1.prems"(2) obtain k' where k: "k = Suc k'"
      by (cases k) auto
    show ?thesis
    proof (cases "HAL_SPI_Receive buffer (unat cnt) w1")
      case (Inl e)
      with inb show ?thesis
        by (simp add: HAL_SPI_Receive_in_bounds)
    next
      case (Inr r)
      obtain st w2 where r: "r = (st, w2)" by (cases r)
      show ?thesis
      proof (cases "st = HAL_OK")
        case False
        with \<open>\<not> uint cnt > uint size' - 2\<close> Inr r show ?thesis
          by (simp add: unf Error_Handler_def)
      next
        case ok: True
        have "length (mem w2 buffer) = length (mem w1 buffer)"
          using Inr r by (simp add: HAL_SPI_Receive_length)
        with "1.prems"(1) m1 have le: "unat size' \<le> length (mem w2 buffer)" by simp
        have r2: "ready w2 = rs"
          using Inr r r1 by (simp add: HAL_SPI_Receive_ready)
        have adv: "uint size' - 2 < uint (cnt + 2) + 2 * int k'"
          using "1.prems"(2) k by (simp add: cursor_advances [OF False])
        have len: "k' < length (ready w2)"
          using "1.prems"(3) rs r2 k by simp
        have all: "\<forall>b \<in> set (take (Suc k') (ready w2)). b"
          using "1.prems"(4) rs r2 k by simp
        have "\<exists>w'. WIFI_SPI_Receive_loop buffer size' (cnt + 2) w2 = Inl (ErrorHandler, w')"
          using "1.IH" [OF p [symmetric] TrueI False Inr r [symmetric] _ le adv len all] ok by simp
        with False Inr r ok show ?thesis
          by (simp add: unf)
      qed
    qed
  qed
qed

lemma WIFI_SPI_Receive_loop_returns_low:
  "WIFI_SPI_Receive_loop buffer size' cnt w = Inr w' \<Longrightarrow>
   trace w' \<noteq> [] \<and> last (trace w') = ReadyPolled False"
proof (induction buffer size' cnt w rule: WIFI_SPI_Receive_loop.induct)
  case (1 buffer size' cnt w)
  obtain rdy w1 where p: "WIFI_IS_CMDDATA_READY w = (rdy, w1)"
    by (cases "WIFI_IS_CMDDATA_READY w")
  note unf = WIFI_SPI_Receive_loop_unfold [OF p, of buffer size' cnt]
  show ?case
  proof (cases rdy)
    case False
    with "1.prems" have "w' = w1" by (simp add: unf)
    with p False show ?thesis by (simp add: WIFI_IS_CMDDATA_READY_trace)
  next
    case True
    with "1.prems" have nov: "\<not> uint cnt > uint size' - 2"
      by (auto simp: unf Error_Handler_def)
    from "1.prems" True nov obtain st w2 where
      rx: "HAL_SPI_Receive buffer (unat cnt) w1 = Inr (st, w2)"
      by (cases "HAL_SPI_Receive buffer (unat cnt) w1") (auto simp: unf)
    with "1.prems" True nov have ok: "st = HAL_OK"
      by (auto simp: unf Error_Handler_def split: if_splits)
    with "1.prems" True nov rx
    have "WIFI_SPI_Receive_loop buffer size' (cnt + 2) w2 = Inr w'"
      by (simp add: unf)
    with "1.IH" [OF p [symmetric] True nov rx refl] ok show ?thesis
      by simp
  qed
qed


section \<open>Properties of the framed receiver and transmitter\<close>

text \<open>Rules that let \<open>simp\<close> run the functions on a concrete world.\<close>

lemma replicate_numeral: "replicate (numeral k) x = x # replicate (pred_numeral k) x"
  by (simp add: numeral_eq_Suc)

lemma list_update_Cons_numeral: "(x # xs)[numeral k := y] = x # xs[pred_numeral k := y]"
  by (simp add: numeral_eq_Suc)

lemmas driver_unfold = replicate_numeral list_update_Cons_numeral
  WIFI_SPI_Receive_def WIFI_SPI_Receive_loop.simps WIFI_SPI_Transmit_def
  WIFI_IS_CMDDATA_READY_def HAL_SPI_Receive_def HAL_SPI_Transmit_def emit_def
  Error_Handler_def memset0_def strcat_def wait_until_ready.simps
  WIFI_ENABLE_NSS_def WIFI_DISABLE_NSS_def WIFI_RESET_MODULE_def
  trimstr_def trimstr_find_end.simps trimstr_scan_back.simps trimstr_scan_front.simps
  snprintf_in_place_def snprintf_def c_string_def

text \<open>
  An empty response: the pin is low at the first poll of \<^verbatim>\<open>WIFI_SPI_Receive\<close>, the
  cleared buffer goes to \<^verbatim>\<open>trimstr\<close>, whose backward scan starts at index 4294967295.
\<close>

lemma WIFI_SPI_Receive_empty_response:
  "(case WIFI_SPI_Receive example_config (Buffer 0) 8 idle_world of
      Inl (f, w') \<Rightarrow> f = OutOfBounds \<and> trace w' = [ReadyPolled False]
    | Inr r \<Rightarrow> False)"
  by (simp add: driver_unfold unat_max_uint32 example_config_def idle_world_def)

text \<open>
  C5. For every capacity \<open>size\<close> (the buffer has at least that many bytes):
  \<^item> when the Ready pin is still high after \<open>size div 2\<close> units, that is when the cursor
    \<open>cnt\<close> exceeds \<open>size - 2\<close>, \<^verbatim>\<open>WIFI_SPI_Receive\<close> calls \<^verbatim>\<open>Error_Handler\<close>;
  \<^item> the receive loop never ends in an access outside the buffer, from any cursor: the
    fault comes before a transfer would write past the end;
  \<^item> when \<^verbatim>\<open>WIFI_SPI_Receive\<close> returns, it returns \<^verbatim>\<open>WIFI_OK\<close> and the last thing it
    did to the hardware was to read the pin low: it never stops while the peer still
    has data.
\<close>

theorem WIFI_SPI_Receive_overflow_fault:
  assumes len: "unat size' \<le> length (mem w buffer)"
  shows "(take (unat size' div 2 + 1) (ready w) = replicate (unat size' div 2 + 1) True
            \<longrightarrow> (\<exists>w'. WIFI_SPI_Receive cfg buffer size' w = Inl (ErrorHandler, w')))
       \<and> (\<forall>cnt w'. WIFI_SPI_Receive_loop buffer size' cnt w \<noteq> Inl (OutOfBounds, w'))
       \<and> (\<forall>st w'. WIFI_SPI_Receive cfg buffer size' w = Inr (st, w')
            \<longrightarrow> st = WIFI_OK \<and> trace w' \<noteq> [] \<and> last (trace w') = ReadyPolled False)"
proof (intro conjI impI allI)
  define zeroed where "zeroed = replicate (unat size') 0 @ drop (unat size') (mem w buffer)"
  define w0 where "w0 = w\<lparr>mem := (mem w)(buffer := zeroed)\<rparr>"
  have ms: "memset0 (mem w buffer) (unat size') = Inr zeroed"
    using len by (simp add: memset0_def zeroed_def)
  have len0: "unat size' \<le> length (mem w0 buffer)"
    using len by (simp add: w0_def zeroed_def)
  have rdy0: "ready w0 = ready w"
    by (simp add: w0_def)
  have rcv: "WIFI_SPI_Receive cfg buffer size' w =
      (case WIFI_SPI_Receive_loop buffer size' 0 w0 of
         Inl e \<Rightarrow> Inl e
       | Inr w1 \<Rightarrow>
           (case trimstr (mem w1 buffer) (ucast size') (WIFI_RX_PADDING cfg) of
              Inl f \<Rightarrow> Inl (f, w1)
            | Inr trimmed \<Rightarrow> Inr (WIFI_OK, w1\<lparr>mem := (mem w1)(buffer := trimmed)\<rparr>)))"
    by (simp add: WIFI_SPI_Receive_def ms w0_def)
  {
    assume high: "take (unat size' div 2 + 1) (ready w) = replicate (unat size' div 2 + 1) True"
    let ?k = "unat size' div 2"
    have "length (take (?k + 1) (ready w)) = ?k + 1"
      by (simp only: high length_replicate)
    then have k: "?k < length (ready w0)"
      by (simp add: rdy0)
    have all: "\<forall>b \<in> set (take (Suc ?k) (ready w0)). b"
      using high by (simp add: rdy0)
    have "int (unat size') - 2 < 2 * int (unat size' div 2)"
      by linarith
    then have past: "uint size' - 2 < uint (0 :: uint16) + 2 * int ?k"
      by simp
    from WIFI_SPI_Receive_loop_escalates [OF len0 past k all]
    obtain w' where "WIFI_SPI_Receive_loop buffer size' 0 w0 = Inl (ErrorHandler, w')" ..
    then show "\<exists>w'. WIFI_SPI_Receive cfg buffer size' w = Inl (ErrorHandler, w')"
      by (simp add: rcv)
  }
  {
    fix cnt w'
    show "WIFI_SPI_Receive_loop buffer size' cnt w \<noteq> Inl (OutOfBounds, w')"
      using len by (rule WIFI_SPI_Receive_loop_in_bounds)
  }
  {
    fix st w'
    assume ret: "WIFI_SPI_Receive cfg buffer size' w = Inr (st, w')"
    then obtain w1 where lp: "WIFI_SPI_Receive_loop buffer size' 0 w0 = Inr w1"
      by (cases "WIFI_SPI_Receive_loop buffer size' 0 w0") (simp_all add: rcv)
    with ret have "st = WIFI_OK \<and> trace w' = trace w1"
      by (cases "trimstr (mem w1 buffer) (ucast size') (WIFI_RX_PADDING cfg)")
         (auto simp: rcv)
    with WIFI_SPI_Receive_loop_returns_low [OF lp]
    show "st = WIFI_OK" and "trace w' \<noteq> []" and "last (trace w') = ReadyPolled False"
      by simp_all
  }
qed

theorem WIFI_SPI_Receive_overflow_fault_witness:
  "unat (4 :: uint16) \<le> length (mem idle_world (Buffer 0))
   \<and> take (unat (4 :: uint16) div 2 + 1) [True, True, True] = replicate (unat (4 :: uint16) div 2 + 1) True
   \<and> (\<exists>w'. WIFI_SPI_Receive example_config (Buffer 0) 4
              (idle_world\<lparr>ready := [True, True, True],
                      spi_rx := [(HAL_OK, 65, 66), (HAL_OK, 67, 68)]\<rparr>) = Inl (ErrorHandler, w'))
   \<and> (case WIFI_SPI_Receive example_config (Buffer 0) 4
              (idle_world\<lparr>ready := [True, True, True],
                      spi_rx := [(HAL_OK, 65, 66), (HAL_OK, 67, 68)]\<rparr>) of
         Inl (f, w') \<Rightarrow> f = ErrorHandler \<and> mem w' (Buffer 0) = [65, 66, 67, 68, 0, 0, 0, 0]
           \<and> trace w' = [ReadyPolled True, SpiReceive HAL_OK [65, 66], ReadyPolled True,
                          SpiReceive HAL_OK [67, 68], ReadyPolled True]
       | Inr r \<Rightarrow> False)"
  using WIFI_SPI_Receive_overflow_fault
          [of 4 "idle_world\<lparr>ready := [True, True, True],
                        spi_rx := [(HAL_OK, 65, 66), (HAL_OK, 67, 68)]\<rparr>" "Buffer 0" example_config]
  by (simp add: driver_unfold example_config_def idle_world_def)

text \<open>
  C6. The claim: for an even declared size exactly one transmit padding byte is appended
  to the copied command (none for an odd size), and \<open>size/2\<close> two-byte units are sent.
  The code does not append the padding byte. It calls
  \<^verbatim>\<open>strcat(bTx, (char) WIFI_TX_PADDING)\<close>, which appends the string stored at the address
  \<^verbatim>\<open>0x0A\<close>. For the command \<^verbatim>\<open>"A?\r"\<close> with declared size 4:
  \<^item> when that string is empty, the four bytes sent are \<^verbatim>\<open>A ? \r\<close> and the NUL
    terminator, not the padding byte \<^verbatim>\<open>0x0A\<close>;
  \<^item> when that string has two bytes, \<^verbatim>\<open>strcat\<close> writes past the end of \<^verbatim>\<open>bTx\<close>;
  \<^item> when the address cannot be read, the run ends there.
\<close>

theorem WIFI_SPI_Transmit_even_size_sends_no_padding:
  "(case WIFI_SPI_Transmit example_config WifiTxBuffer 4
           (idle_world\<lparr>mem := (mem idle_world)(WifiTxBuffer := [65, 63, 13, 0, 0, 0, 0, 0]),
                   spi_tx := [HAL_OK]\<rparr>) of
      Inl e \<Rightarrow> False
    | Inr (st, w') \<Rightarrow> trace w' = [SpiTransmit HAL_OK [65, 63, 13, 0]])
   \<and> (case WIFI_SPI_Transmit example_config WifiTxBuffer 4
           (idle_world\<lparr>mem := (mem idle_world)(WifiTxBuffer := [65, 63, 13, 0, 0, 0, 0, 0]),
                   spi_tx := [HAL_OK], stray := (\<lambda>a. Some [72, 105])\<rparr>) of
      Inl (f, w') \<Rightarrow> f = OutOfBounds \<and> trace w' = []
    | Inr r \<Rightarrow> False)
   \<and> (case WIFI_SPI_Transmit example_config WifiTxBuffer 4
           (idle_world\<lparr>mem := (mem idle_world)(WifiTxBuffer := [65, 63, 13, 0, 0, 0, 0, 0]),
                   spi_tx := [HAL_OK], stray := (\<lambda>a. None)\<rparr>) of
      Inl (f, w') \<Rightarrow> f = OutOfBounds \<and> trace w' = []
    | Inr r \<Rightarrow> False)"
  by (simp add: driver_unfold example_config_def idle_world_def)

text \<open>
  C10. \<^verbatim>\<open>WIFI_SPI_Transmit\<close> never changes the caller's command buffer: whenever it
  returns, and whenever it ends in a fault, every array holds what it held before the
  call. The command is copied into the local \<^verbatim>\<open>bTx\<close>, and only \<^verbatim>\<open>bTx\<close> is written.
\<close>

theorem WIFI_SPI_Transmit_keeps_memory:
  "(\<forall>st w'. WIFI_SPI_Transmit cfg buffer size' w = Inr (st, w') \<longrightarrow> mem w' = mem w)
   \<and> (\<forall>f w'. WIFI_SPI_Transmit cfg buffer size' w = Inl (f, w') \<longrightarrow> mem w' = mem w)"
  by (auto simp: WIFI_SPI_Transmit_def HAL_SPI_Transmit_def Error_Handler_def emit_def Let_def
           split: sum.splits prod.splits if_splits list.splits option.splits)

theorem WIFI_SPI_Transmit_keeps_memory_witness:
  "(\<exists>st w'. WIFI_SPI_Transmit example_config WifiTxBuffer 5
              (idle_world\<lparr>mem := (mem idle_world)(WifiTxBuffer := [65, 63, 63, 13, 0, 0, 0, 0]),
                      spi_tx := [HAL_OK]\<rparr>) = Inr (st, w')
        \<and> mem w' WifiTxBuffer = [65, 63, 63, 13, 0, 0, 0, 0]
        \<and> trace w' = [SpiTransmit HAL_OK [65, 63, 63, 13]])"
  using WIFI_SPI_Transmit_keeps_memory
          [of example_config WifiTxBuffer 5
              "idle_world\<lparr>mem := (mem idle_world)(WifiTxBuffer := [65, 63, 63, 13, 0, 0, 0, 0]),
                      spi_tx := [HAL_OK]\<rparr>"]
  by (simp add: driver_unfold example_config_def idle_world_def)


section \<open>\<^verbatim>\<open>WIFI_Init\<close>: the power-up banner\<close>

lemma trimstr_terminated: "trimstr str strSize c = Inr b \<Longrightarrow> 0 \<in> set b"
  by (auto simp: trimstr_def snprintf_in_place_def snprintf_def c_string_def Let_def
           split: sum.splits prod.splits if_splits dest: in_set_dropD)

lemma strcmp_differs_iff:
  "0 \<in> set buf \<Longrightarrow> 0 \<notin> set lit \<Longrightarrow>
   strcmp_differs buf lit = Inr (takeWhile (\<lambda>b. b \<noteq> 0) buf \<noteq> lit)"
  by (induction buf lit rule: strcmp_differs.induct) auto

lemma poll_transmits:
  "WIFI_IS_CMDDATA_READY w = (rdy, w1) \<Longrightarrow>
   filter is_transmit (trace w1) = filter is_transmit (trace w)"
  by (simp add: WIFI_IS_CMDDATA_READY_trace)

lemma wait_until_ready_unfold:
  "wait_until_ready w =
     (if ready w = [] then Inl (Hang, w)
      else (case WIFI_IS_CMDDATA_READY w of (rdy, w1) \<Rightarrow>
              if \<not> rdy then wait_until_ready w1 else Inr w1))"
  by (subst wait_until_ready.simps) simp

lemma wait_until_ready_transmits:
  "wait_until_ready w = Inr w' \<or> wait_until_ready w = Inl (f, w') \<Longrightarrow>
   filter is_transmit (trace w') = filter is_transmit (trace w)"
proof (induction w rule: wait_until_ready.induct)
  case (1 w)
  show ?case
  proof (cases "ready w = []")
    case True
    with "1.prems" show ?thesis
      by (simp add: wait_until_ready_unfold [of w])
  next
    case False
    obtain rdy w1 where p: "WIFI_IS_CMDDATA_READY w = (rdy, w1)"
      by (cases "WIFI_IS_CMDDATA_READY w")
    show ?thesis
    proof (cases rdy)
      case True
      with "1.prems" False p have "w' = w1"
        by (simp add: wait_until_ready_unfold [of w])
      with p show ?thesis by (simp add: poll_transmits)
    next
      case low: False
      with "1.prems" \<open>ready w \<noteq> []\<close> p
      have "wait_until_ready w1 = Inr w' \<or> wait_until_ready w1 = Inl (f, w')"
        by (simp add: wait_until_ready_unfold [of w])
      from "1.IH" [OF \<open>ready w \<noteq> []\<close> p [symmetric] low this] p show ?thesis
        by (simp add: poll_transmits)
    qed
  qed
qed

lemma HAL_SPI_Receive_transmits:
  "HAL_SPI_Receive buffer off w = Inr (st, w') \<or> HAL_SPI_Receive buffer off w = Inl (f, w') \<Longrightarrow>
   filter is_transmit (trace w') = filter is_transmit (trace w)"
  by (auto simp: HAL_SPI_Receive_def emit_def split: list.splits if_splits prod.splits)

lemma WIFI_SPI_Receive_loop_transmits:
  "WIFI_SPI_Receive_loop buffer size' cnt w = Inr w'
     \<or> WIFI_SPI_Receive_loop buffer size' cnt w = Inl (f, w') \<Longrightarrow>
   filter is_transmit (trace w') = filter is_transmit (trace w)"
proof (induction buffer size' cnt w rule: WIFI_SPI_Receive_loop.induct)
  case (1 buffer size' cnt w)
  obtain rdy w1 where p: "WIFI_IS_CMDDATA_READY w = (rdy, w1)"
    by (cases "WIFI_IS_CMDDATA_READY w")
  note unf = WIFI_SPI_Receive_loop_unfold [OF p, of buffer size' cnt]
  note t1 = poll_transmits [OF p]
  show ?case
  proof (cases "rdy \<and> \<not> uint cnt > uint size' - 2")
    case False
    with "1.prems" t1 show ?thesis
      by (cases rdy) (auto simp: unf Error_Handler_def)
  next
    case True
    then have rdy: rdy and nov: "\<not> uint cnt > uint size' - 2" by simp_all
    show ?thesis
    proof (cases "HAL_SPI_Receive buffer (unat cnt) w1")
      case (Inl e)
      obtain g v where e: "e = (g, v)" by (cases e)
      with "1.prems" True Inl have "v = w'"
        by (simp add: unf)
      with Inl e HAL_SPI_Receive_transmits [of buffer "unat cnt" w1 _ w' g] t1
      show ?thesis by simp
    next
      case (Inr r)
      obtain st w2 where r: "r = (st, w2)" by (cases r)
      have t2: "filter is_transmit (trace w2) = filter is_transmit (trace w1)"
        using Inr r HAL_SPI_Receive_transmits [of buffer "unat cnt" w1 st w2] by simp
      show ?thesis
      proof (cases "st = HAL_OK")
        case False
        with "1.prems" True Inr r have "w' = w2"
          by (simp add: unf Error_Handler_def)
        with t1 t2 show ?thesis by simp
      next
        case ok: True
        with "1.prems" True Inr r
        have "WIFI_SPI_Receive_loop buffer size' (cnt + 2) w2 = Inr w'
              \<or> WIFI_SPI_Receive_loop buffer size' (cnt + 2) w2 = Inl (f, w')"
          by (simp add: unf)
        from "1.IH" [OF p [symmetric] rdy nov Inr r [symmetric] _ this] ok t1 t2
        show ?thesis by simp
      qed
    qed
  qed
qed

lemma WIFI_SPI_Receive_transmits:
  "WIFI_SPI_Receive cfg buffer size' w = Inr (st, w')
     \<or> WIFI_SPI_Receive cfg buffer size' w = Inl (f, w') \<Longrightarrow>
   filter is_transmit (trace w') = filter is_transmit (trace w)"
proof -
  assume a: "WIFI_SPI_Receive cfg buffer size' w = Inr (st, w')
     \<or> WIFI_SPI_Receive cfg buffer size' w = Inl (f, w')"
  show ?thesis
  proof (cases "memset0 (mem w buffer) (unat size')")
    case (Inl g)
    with a show ?thesis by (auto simp: WIFI_SPI_Receive_def)
  next
    case (Inr zeroed)
    define w0 where "w0 = w\<lparr>mem := (mem w)(buffer := zeroed)\<rparr>"
    have t0: "trace w0 = trace w" by (simp add: w0_def)
    show ?thesis
    proof (cases "WIFI_SPI_Receive_loop buffer size' 0 w0")
      case (Inl e)
      obtain g v where e: "e = (g, v)" by (cases e)
      with a Inl Inr have "v = w'"
        by (auto simp: WIFI_SPI_Receive_def w0_def)
      with Inl e WIFI_SPI_Receive_loop_transmits [of buffer size' 0 w0 w' g] t0
      show ?thesis by simp
    next
      case lp: (Inr w1)
      with WIFI_SPI_Receive_loop_transmits [of buffer size' 0 w0 w1] t0
      have t1: "filter is_transmit (trace w1) = filter is_transmit (trace w)" by simp
      from a Inr lp have "trace w' = trace w1"
        by (auto simp: WIFI_SPI_Receive_def w0_def split: sum.splits)
      with t1 show ?thesis by simp
    qed
  qed
qed

lemma WIFI_SPI_Receive_returns:
  assumes "WIFI_SPI_Receive cfg buffer size' w = Inr (st, w')"
  shows "st = WIFI_OK \<and> 0 \<in> set (mem w' buffer)"
  using assms
  by (auto simp: WIFI_SPI_Receive_def split: sum.splits dest: trimstr_terminated)

text \<open>
  C8. The response is the string \<^verbatim>\<open>WIFI_SPI_Receive\<close> leaves in \<^verbatim>\<open>wifiRxBuffer\<close>. For a
  banner literal (a string without NUL):
  \<^item> when the response is not exactly the banner, \<^verbatim>\<open>WIFI_Init\<close> calls \<^verbatim>\<open>Error_Handler\<close>,
    in the world the receive left;
  \<^item> when \<^verbatim>\<open>WIFI_Init\<close> returns, the response is exactly the banner;
  \<^item> whatever the outcome, \<^verbatim>\<open>WIFI_Init\<close> transmits nothing: no command has been sent
    when the fault is raised.
\<close>

theorem WIFI_Init_requires_banner:
  assumes lit: "0 \<notin> set (WIFI_MSG_POWERUP cfg)"
  shows "(\<forall>w1 st w2. wait_until_ready (WIFI_ENABLE_NSS (WIFI_RESET_MODULE w)) = Inr w1
            \<and> WIFI_SPI_Receive cfg WifiRxBuffer (WIFI_RX_BUFFER_SIZE cfg) w1 = Inr (st, w2)
            \<and> c_string (mem w2 WifiRxBuffer) \<noteq> Inr (WIFI_MSG_POWERUP cfg)
            \<longrightarrow> WIFI_Init cfg w = Inl (ErrorHandler, w2))
       \<and> (\<forall>st w'. WIFI_Init cfg w = Inr (st, w')
            \<longrightarrow> c_string (mem w' WifiRxBuffer) = Inr (WIFI_MSG_POWERUP cfg))
       \<and> filter is_transmit (trace (final_world (WIFI_Init cfg w))) = filter is_transmit (trace w)"
proof -
  let ?start = "WIFI_ENABLE_NSS (WIFI_RESET_MODULE w)"
  let ?lit = "WIFI_MSG_POWERUP cfg"
  have t0: "filter is_transmit (trace ?start) = filter is_transmit (trace w)"
    by (simp add: WIFI_ENABLE_NSS_def WIFI_RESET_MODULE_def emit_def)
  have cmp: "strcmp_differs (mem w2 WifiRxBuffer) ?lit = Inr (c_string (mem w2 WifiRxBuffer) \<noteq> Inr ?lit)"
    if "WIFI_SPI_Receive cfg WifiRxBuffer (WIFI_RX_BUFFER_SIZE cfg) w1 = Inr (st, w2)" for w1 st w2
  proof -
    from WIFI_SPI_Receive_returns [OF that] have z: "0 \<in> set (mem w2 WifiRxBuffer)" by simp
    then show ?thesis
      using lit by (simp add: strcmp_differs_iff c_string_def)
  qed
  show ?thesis
  proof (cases "wait_until_ready ?start")
    case (Inl e)
    obtain f v where e: "e = (f, v)" by (cases e)
    from Inl e have "wait_until_ready ?start = Inl (f, v)" by simp
    from wait_until_ready_transmits [OF disjI2 [OF this]] t0
    have "filter is_transmit (trace v) = filter is_transmit (trace w)" by simp
    with Inl e show ?thesis
      by (simp add: WIFI_Init_def final_world_def)
  next
    case w1: (Inr w1)
    from wait_until_ready_transmits [OF disjI1 [OF w1]] t0
    have t1: "filter is_transmit (trace w1) = filter is_transmit (trace w)" by simp
    show ?thesis
    proof (cases "WIFI_SPI_Receive cfg WifiRxBuffer (WIFI_RX_BUFFER_SIZE cfg) w1")
      case (Inl e)
      obtain f v where e: "e = (f, v)" by (cases e)
      from Inl e have "WIFI_SPI_Receive cfg WifiRxBuffer (WIFI_RX_BUFFER_SIZE cfg) w1 = Inl (f, v)"
        by simp
      from WIFI_SPI_Receive_transmits [OF disjI2 [OF this]] t1
      have "filter is_transmit (trace v) = filter is_transmit (trace w)" by simp
      with w1 Inl e show ?thesis
        by (simp add: WIFI_Init_def final_world_def)
    next
      case (Inr r)
      obtain st w2 where r: "r = (st, w2)" by (cases r)
      from Inr r have rcv: "WIFI_SPI_Receive cfg WifiRxBuffer (WIFI_RX_BUFFER_SIZE cfg) w1 = Inr (st, w2)"
        by simp
      from WIFI_SPI_Receive_returns [OF rcv] have ok: "st = WIFI_OK" by simp
      from WIFI_SPI_Receive_transmits [OF disjI1 [OF rcv]] t1
      have t2: "filter is_transmit (trace w2) = filter is_transmit (trace w)" by simp
      have init: "WIFI_Init cfg w =
          (if c_string (mem w2 WifiRxBuffer) \<noteq> Inr ?lit then Inl (ErrorHandler, w2)
           else Inr (WIFI_OK, WIFI_DISABLE_NSS w2))"
        using w1 rcv ok cmp [OF rcv] by (simp add: WIFI_Init_def Error_Handler_def)
      show ?thesis
        using w1 rcv t2
        by (auto simp: init final_world_def WIFI_DISABLE_NSS_def emit_def)
    qed
  qed
qed

theorem WIFI_Init_requires_banner_witness:
  "0 \<notin> set (WIFI_MSG_POWERUP example_config)
   \<and> (case WIFI_Init example_config
             (idle_world\<lparr>ready := [False, True, True, True, True, False],
                         spi_rx := [(HAL_OK, 21, 21), (HAL_OK, 13, 10), (HAL_OK, 62, 32)]\<rparr>) of
        Inl e \<Rightarrow> False
      | Inr (st, w') \<Rightarrow> st = WIFI_OK \<and> mem w' WifiRxBuffer = [13, 10, 62, 32, 0, 32, 0, 0]
          \<and> c_string (mem w' WifiRxBuffer) = Inr (WIFI_MSG_POWERUP example_config))
   \<and> (case WIFI_Init example_config
             (idle_world\<lparr>ready := [False, True, True, True, True, False],
                         spi_rx := [(HAL_OK, 21, 21), (HAL_OK, 13, 10), (HAL_OK, 63, 32)]\<rparr>) of
        Inl (f, w') \<Rightarrow> f = ErrorHandler \<and> mem w' WifiRxBuffer = [13, 10, 63, 32, 0, 32, 0, 0]
          \<and> filter is_transmit (trace w') = []
      | Inr r \<Rightarrow> False)"
  using WIFI_Init_requires_banner
          [of example_config
              "idle_world\<lparr>ready := [False, True, True, True, True, False],
                          spi_rx := [(HAL_OK, 21, 21), (HAL_OK, 13, 10), (HAL_OK, 62, 32)]\<rparr>"]
  by (simp add: driver_unfold WIFI_Init_def example_config_def idle_world_def)


section \<open>\<^verbatim>\<open>WIFI_SendATCommand\<close>: the order of the exchange\<close>

lemma exchange_run_append:
  "exchange_run p (es @ es') =
     (case exchange_run p es of None \<Rightarrow> None | Some q \<Rightarrow> exchange_run q es')"
  by (induction es arbitrary: p) (auto split: option.splits)

lemma wait_until_ready_order:
  assumes low: "exchange_step P (ReadyPolled False) = Some P"
    and high: "exchange_step P (ReadyPolled True) = Some Q"
  shows "(wait_until_ready w = Inr w' \<longrightarrow>
            (\<exists>es. trace w' = trace w @ es \<and> exchange_run P es = Some Q))
       \<and> (wait_until_ready w = Inl (f, w') \<longrightarrow>
            (\<exists>es. trace w' = trace w @ es \<and> exchange_run P es = Some P))"
proof (induction w rule: wait_until_ready.induct)
  case (1 w)
  show ?case
  proof (cases "ready w = []")
    case True
    then show ?thesis
      by (simp add: wait_until_ready_unfold [of w])
  next
    case False
    obtain rdy w1 where p: "WIFI_IS_CMDDATA_READY w = (rdy, w1)"
      by (cases "WIFI_IS_CMDDATA_READY w")
    note t1 = WIFI_IS_CMDDATA_READY_trace [OF p]
    show ?thesis
    proof (cases rdy)
      case True
      with False p have "wait_until_ready w = Inr w1"
        by (simp add: wait_until_ready_unfold [of w])
      moreover have "exchange_run P [ReadyPolled True] = Some Q"
        by (simp add: high)
      ultimately show ?thesis
        using t1 True by auto
    next
      case nr: False
      with False p have eq: "wait_until_ready w = wait_until_ready w1"
        by (simp add: wait_until_ready_unfold [of w])
      have ext: "\<exists>es. trace w' = trace w @ es \<and> exchange_run P es = Some R"
        if "\<exists>es. trace w' = trace w1 @ es \<and> exchange_run P es = Some R" for R
      proof -
        from that obtain es where "trace w' = trace w1 @ es" "exchange_run P es = Some R"
          by blast
        with t1 nr low have "trace w' = trace w @ (ReadyPolled False # es)
            \<and> exchange_run P (ReadyPolled False # es) = Some R"
          by simp
        then show ?thesis by blast
      qed
      from "1.IH" [OF False p [symmetric] nr] ext show ?thesis
        unfolding eq by blast
    qed
  qed
qed

lemma WIFI_SPI_Transmit_order:
  "(WIFI_SPI_Transmit cfg b s w = Inr (st, w') \<longrightarrow>
      st = WIFI_OK \<and> (\<exists>d. trace w' = trace w @ [SpiTransmit HAL_OK d]))
   \<and> (WIFI_SPI_Transmit cfg b s w = Inl (f, w') \<longrightarrow>
      trace w' = trace w \<or> (f = ErrorHandler \<and> (\<exists>st' d. trace w' = trace w @ [SpiTransmit st' d])))"
  by (auto simp: WIFI_SPI_Transmit_def HAL_SPI_Transmit_def Error_Handler_def emit_def Let_def
           split: sum.splits prod.splits if_splits list.splits option.splits)

lemma WIFI_SPI_Receive_loop_order:
  "(WIFI_SPI_Receive_loop buffer size' cnt w = Inr w' \<longrightarrow>
      (\<exists>es. trace w' = trace w @ es \<and> exchange_run SelectedRead es = Some OverflowCheck))
   \<and> (WIFI_SPI_Receive_loop buffer size' cnt w = Inl (f, w') \<longrightarrow>
      (\<exists>es q. trace w' = trace w @ es \<and> exchange_run SelectedRead es = Some q
         \<and> (q = SelectedRead \<or> q = Receiving)))"
proof (induction buffer size' cnt w rule: WIFI_SPI_Receive_loop.induct)
  case (1 buffer size' cnt w)
  obtain rdy w1 where p: "WIFI_IS_CMDDATA_READY w = (rdy, w1)"
    by (cases "WIFI_IS_CMDDATA_READY w")
  note unf = WIFI_SPI_Receive_loop_unfold [OF p, of buffer size' cnt]
  note t1 = WIFI_IS_CMDDATA_READY_trace [OF p]
  show ?case
  proof (cases rdy)
    case False
    then have "WIFI_SPI_Receive_loop buffer size' cnt w = Inr w1"
      by (simp add: unf)
    moreover have "exchange_run SelectedRead [ReadyPolled False] = Some OverflowCheck"
      by simp
    ultimately show ?thesis
      using t1 False by auto
  next
    case rdy: True
    have r1: "exchange_run SelectedRead [ReadyPolled True] = Some Receiving"
      by simp
    show ?thesis
    proof (cases "uint cnt > uint size' - 2")
      case True
      with rdy have "WIFI_SPI_Receive_loop buffer size' cnt w = Inl (ErrorHandler, w1)"
        by (simp add: unf Error_Handler_def)
      with t1 rdy r1 show ?thesis by auto
    next
      case nov: False
      show ?thesis
      proof (cases "HAL_SPI_Receive buffer (unat cnt) w1")
        case (Inl e)
        then have "e = (OutOfBounds, w1)"
          by (auto simp: HAL_SPI_Receive_def split: list.splits prod.splits if_splits)
        with Inl rdy nov have "WIFI_SPI_Receive_loop buffer size' cnt w = Inl (OutOfBounds, w1)"
          by (simp add: unf)
        with t1 rdy r1 show ?thesis by auto
      next
        case (Inr r)
        obtain st w2 where r: "r = (st, w2)" by (cases r)
        from Inr r obtain d where t2: "trace w2 = trace w1 @ [SpiReceive st d]"
          by (auto simp: HAL_SPI_Receive_def emit_def split: list.splits prod.splits if_splits)
        have r2: "exchange_run SelectedRead [ReadyPolled True, SpiReceive st d] = Some SelectedRead"
          by simp
        show ?thesis
        proof (cases "st = HAL_OK")
          case False
          with Inr r rdy nov have "WIFI_SPI_Receive_loop buffer size' cnt w = Inl (ErrorHandler, w2)"
            by (simp add: unf Error_Handler_def)
          with t1 t2 rdy r2 show ?thesis by auto
        next
          case ok: True
          with Inr r rdy nov
          have eq: "WIFI_SPI_Receive_loop buffer size' cnt w =
                    WIFI_SPI_Receive_loop buffer size' (cnt + 2) w2"
            by (simp add: unf)
          have ext: "\<exists>es. trace w' = trace w @ es \<and> exchange_run SelectedRead es = Some R"
            if "\<exists>es. trace w' = trace w2 @ es \<and> exchange_run SelectedRead es = Some R" for R
          proof -
            from that obtain es where "trace w' = trace w2 @ es"
                "exchange_run SelectedRead es = Some R"
              by blast
            with t1 t2 rdy
            have "trace w' = trace w @ ([ReadyPolled True, SpiReceive st d] @ es)
                \<and> exchange_run SelectedRead ([ReadyPolled True, SpiReceive st d] @ es) = Some R"
              by simp
            then show ?thesis by blast
          qed
          from "1.IH" [OF p [symmetric] rdy nov Inr r [symmetric]] ok
          have ih: "(WIFI_SPI_Receive_loop buffer size' (cnt + 2) w2 = Inr w' \<longrightarrow>
                (\<exists>es. trace w' = trace w2 @ es \<and> exchange_run SelectedRead es = Some OverflowCheck))
             \<and> (WIFI_SPI_Receive_loop buffer size' (cnt + 2) w2 = Inl (f, w') \<longrightarrow>
                (\<exists>es q. trace w' = trace w2 @ es \<and> exchange_run SelectedRead es = Some q
                   \<and> (q = SelectedRead \<or> q = Receiving)))"
            by simp
          show ?thesis
            unfolding eq using ih ext by blast
        qed
      qed
    qed
  qed
qed

lemma advancesI:
  "trace w' = trace w @ es \<Longrightarrow> exchange_run p es = Some q \<Longrightarrow> advances p w w' q"
  by (simp add: advances_def)

lemma advances_refl: "advances p w w p"
  by (simp add: advances_def)

lemma advances_trace: "trace w' = trace w \<Longrightarrow> advances p w w' p"
  by (simp add: advances_def)

lemma advances_step:
  "trace w' = trace w @ [e] \<Longrightarrow> exchange_step p e = Some q \<Longrightarrow> advances p w w' q"
  by (simp add: advances_def)

lemma advances_trans:
  assumes "advances p u v q" and "advances q v w r"
  shows "advances p u w r"
proof -
  from assms(1) have "trace v = trace u @ drop (length (trace u)) (trace v)"
    by (metis advances_def append_take_drop_id)
  moreover from assms(2) have "trace w = trace v @ drop (length (trace v)) (trace w)"
    by (metis advances_def append_take_drop_id)
  ultimately have "trace w = trace u @ (drop (length (trace u)) (trace v)
                                         @ drop (length (trace v)) (trace w))"
    by (metis append.assoc)
  moreover have "exchange_run p (drop (length (trace u)) (trace v)
                                  @ drop (length (trace v)) (trace w)) = Some r"
    using assms by (simp add: advances_def exchange_run_append)
  ultimately show ?thesis
    by (rule advancesI)
qed

lemma WIFI_SPI_Receive_order:
  "(WIFI_SPI_Receive cfg buffer size' w = Inr (st, w') \<longrightarrow>
      st = WIFI_OK \<and> advances SelectedRead w w' OverflowCheck)
   \<and> (WIFI_SPI_Receive cfg buffer size' w = Inl (f, w') \<longrightarrow>
      (\<exists>q. advances SelectedRead w w' q
         \<and> (q = SelectedRead \<or> q = Receiving \<or> q = OverflowCheck)))"
proof (cases "memset0 (mem w buffer) (unat size')")
  case (Inl g)
  then show ?thesis
    by (auto simp: WIFI_SPI_Receive_def intro!: exI [of _ SelectedRead] advances_refl)
next
  case (Inr zeroed)
  define w0 where "w0 = w\<lparr>mem := (mem w)(buffer := zeroed)\<rparr>"
  have t0: "trace w0 = trace w" by (simp add: w0_def)
  show ?thesis
  proof (cases "WIFI_SPI_Receive_loop buffer size' 0 w0")
    case (Inl e)
    obtain g v where e: "e = (g, v)" by (cases e)
    from Inl e have lp: "WIFI_SPI_Receive_loop buffer size' 0 w0 = Inl (g, v)" by simp
    with WIFI_SPI_Receive_loop_order [of buffer size' 0 w0 v g] t0
    obtain q where "advances SelectedRead w v q" "q = SelectedRead \<or> q = Receiving"
      by (auto intro: advancesI)
    moreover from Inr lp have "WIFI_SPI_Receive cfg buffer size' w = Inl (g, v)"
      by (simp add: WIFI_SPI_Receive_def w0_def)
    ultimately show ?thesis by auto
  next
    case lp: (Inr w1)
    with WIFI_SPI_Receive_loop_order [of buffer size' 0 w0 w1] t0
    have a1: "advances SelectedRead w w1 OverflowCheck"
      by (auto intro: advancesI)
    show ?thesis
    proof (cases "trimstr (mem w1 buffer) (ucast size') (WIFI_RX_PADDING cfg)")
      case (Inl g)
      with Inr lp have "WIFI_SPI_Receive cfg buffer size' w = Inl (g, w1)"
        by (simp add: WIFI_SPI_Receive_def w0_def)
      with a1 show ?thesis by auto
    next
      case tr: (Inr trimmed)
      with Inr lp have "WIFI_SPI_Receive cfg buffer size' w
          = Inr (WIFI_OK, w1\<lparr>mem := (mem w1)(buffer := trimmed)\<rparr>)"
        by (simp add: WIFI_SPI_Receive_def w0_def)
      moreover have "advances SelectedRead w (w1\<lparr>mem := (mem w1)(buffer := trimmed)\<rparr>) OverflowCheck"
        using a1 by (simp add: advances_def)
      ultimately show ?thesis by auto
    qed
  qed
qed


lemma WIFI_SPI_Transmit_advances:
  "(WIFI_SPI_Transmit cfg b s w = Inr (st, w') \<longrightarrow>
      st = WIFI_OK \<and> advances SelectedWrite w w' Written)
   \<and> (WIFI_SPI_Transmit cfg b s w = Inl (f, w') \<longrightarrow>
      advances SelectedWrite w w' SelectedWrite \<or> advances SelectedWrite w w' Written)"
  using WIFI_SPI_Transmit_order [of cfg b s w st w' f]
  by (auto intro: advances_trace advances_step)

lemma wait_until_ready_advances:
  assumes low: "exchange_step P (ReadyPolled False) = Some P"
    and high: "exchange_step P (ReadyPolled True) = Some Q"
  shows "(wait_until_ready w = Inr w' \<longrightarrow> advances P w w' Q)
       \<and> (wait_until_ready w = Inl (f, w') \<longrightarrow> advances P w w' P)"
  using wait_until_ready_order [OF low high, of w w' f]
  by (auto intro: advancesI)

text \<open>
  C7. Every call of \<^verbatim>\<open>WIFI_SendATCommand\<close>, however it ends, makes its hardware calls
  in the order of the exchange: wait for Ready, select, transmit, deselect, wait for
  Ready, select, receive (a high pin before each unit, a low pin at the end), the
  overflow check, deselect. The calls made lead from \<open>WaitReadyForCmd\<close> to a state \<open>p\<close>
  with no call out of order; the call returns exactly when \<open>p\<close> is \<open>Done\<close>; and when the
  exchange has reached \<open>Overflowed\<close> the run has ended in \<^verbatim>\<open>Error_Handler\<close>.
  Second part: when transmit and receive have returned and the pin is still high at the
  next poll, the call ends in \<^verbatim>\<open>Error_Handler\<close> right after that poll.
\<close>

theorem WIFI_SendATCommand_order:
  "(\<exists>p. advances WaitReadyForCmd w (final_world (WIFI_SendATCommand cfg bCmd sizeCmd bRx sizeRx w)) p
       \<and> ((\<exists>st w'. WIFI_SendATCommand cfg bCmd sizeCmd bRx sizeRx w = Inr (st, w')) \<longleftrightarrow> p = Done)
       \<and> (p = Overflowed \<longrightarrow>
            (\<exists>w'. WIFI_SendATCommand cfg bCmd sizeCmd bRx sizeRx w = Inl (ErrorHandler, w'))))
   \<and> (\<forall>w1 st w2 w3 st' w4 rs.
         wait_until_ready w = Inr w1
         \<and> WIFI_SPI_Transmit cfg bCmd sizeCmd (WIFI_ENABLE_NSS w1) = Inr (st, w2)
         \<and> wait_until_ready (WIFI_DISABLE_NSS w2) = Inr w3
         \<and> WIFI_SPI_Receive cfg bRx sizeRx (WIFI_ENABLE_NSS w3) = Inr (st', w4)
         \<and> ready w4 = True # rs
         \<longrightarrow> WIFI_SendATCommand cfg bCmd sizeCmd bRx sizeRx w
               = Inl (ErrorHandler, emit (ReadyPolled True) (w4\<lparr>ready := rs\<rparr>)))"
  (is "?order \<and> ?overflow")
proof
  let ?T = "WIFI_SendATCommand cfg bCmd sizeCmd bRx sizeRx w"
  show ?overflow
  proof (intro allI impI, elim conjE)
    fix w1 st w2 w3 st' w4 rs
    assume a: "wait_until_ready w = Inr w1"
      "WIFI_SPI_Transmit cfg bCmd sizeCmd (WIFI_ENABLE_NSS w1) = Inr (st, w2)"
      "wait_until_ready (WIFI_DISABLE_NSS w2) = Inr w3"
      "WIFI_SPI_Receive cfg bRx sizeRx (WIFI_ENABLE_NSS w3) = Inr (st', w4)"
      "ready w4 = True # rs"
    from a(2) WIFI_SPI_Transmit_order [of cfg bCmd sizeCmd "WIFI_ENABLE_NSS w1" st w2]
    have "st = WIFI_OK" by simp
    moreover from WIFI_SPI_Receive_returns [OF a(4)] have "st' = WIFI_OK" by simp
    ultimately show "?T = Inl (ErrorHandler, emit (ReadyPolled True) (w4\<lparr>ready := rs\<rparr>))"
      using a by (simp add: WIFI_SendATCommand_def WIFI_IS_CMDDATA_READY_def Error_Handler_def)
  qed
  have fault: "\<exists>p. advances WaitReadyForCmd w (final_world ?T) p
       \<and> ((\<exists>st w'. ?T = Inr (st, w')) \<longleftrightarrow> p = Done)
       \<and> (p = Overflowed \<longrightarrow> (\<exists>w'. ?T = Inl (ErrorHandler, w')))"
    if "?T = Inl (f, v)" and "advances WaitReadyForCmd w v q" and "q \<noteq> Done" and "q \<noteq> Overflowed"
    for f v q
    using that by (intro exI [of _ q]) (simp add: final_world_def)
  show ?order
  proof (cases "wait_until_ready w")
    case (Inl e)
    obtain f v where e: "e = (f, v)" by (cases e)
    with Inl have w: "wait_until_ready w = Inl (f, v)" by simp
    with wait_until_ready_advances [of WaitReadyForCmd CmdReady w v f]
    have "advances WaitReadyForCmd w v WaitReadyForCmd" by simp
    moreover from w have "?T = Inl (f, v)"
      by (simp add: WIFI_SendATCommand_def)
    ultimately show ?thesis by (intro fault [of f v WaitReadyForCmd]) simp_all
  next
    case w1: (Inr w1)
    with wait_until_ready_advances [of WaitReadyForCmd CmdReady w w1]
    have "advances WaitReadyForCmd w w1 CmdReady" by simp
    moreover have "advances CmdReady w1 (WIFI_ENABLE_NSS w1) SelectedWrite"
      by (rule advances_step [where e = NssEnabled]) (simp_all add: WIFI_ENABLE_NSS_def emit_def)
    ultimately have a1: "advances WaitReadyForCmd w (WIFI_ENABLE_NSS w1) SelectedWrite"
      by (rule advances_trans)
    show ?thesis
    proof (cases "WIFI_SPI_Transmit cfg bCmd sizeCmd (WIFI_ENABLE_NSS w1)")
      case (Inl e)
      obtain f v where e: "e = (f, v)" by (cases e)
      with Inl have tx: "WIFI_SPI_Transmit cfg bCmd sizeCmd (WIFI_ENABLE_NSS w1) = Inl (f, v)"
        by simp
      with WIFI_SPI_Transmit_advances [of cfg bCmd sizeCmd "WIFI_ENABLE_NSS w1" _ v f]
      have "advances SelectedWrite (WIFI_ENABLE_NSS w1) v SelectedWrite
            \<or> advances SelectedWrite (WIFI_ENABLE_NSS w1) v Written"
        by simp
      with a1 obtain q where "advances WaitReadyForCmd w v q" "q = SelectedWrite \<or> q = Written"
        by (auto intro: advances_trans)
      moreover from w1 tx have "?T = Inl (f, v)"
        by (simp add: WIFI_SendATCommand_def)
      ultimately show ?thesis by (intro fault [of f v q]) auto
    next
      case (Inr r)
      obtain st w2 where r: "r = (st, w2)" by (cases r)
      with Inr have tx: "WIFI_SPI_Transmit cfg bCmd sizeCmd (WIFI_ENABLE_NSS w1) = Inr (st, w2)"
        by simp
      with WIFI_SPI_Transmit_advances [of cfg bCmd sizeCmd "WIFI_ENABLE_NSS w1" st w2]
      have st: "st = WIFI_OK" and "advances SelectedWrite (WIFI_ENABLE_NSS w1) w2 Written"
        by simp_all
      with a1 have "advances WaitReadyForCmd w w2 Written"
        by (auto intro: advances_trans)
      moreover have "advances Written w2 (WIFI_DISABLE_NSS w2) WaitReadyForResp"
        by (rule advances_step [where e = NssDisabled]) (simp_all add: WIFI_DISABLE_NSS_def emit_def)
      ultimately have a2: "advances WaitReadyForCmd w (WIFI_DISABLE_NSS w2) WaitReadyForResp"
        by (rule advances_trans)
      show ?thesis
      proof (cases "wait_until_ready (WIFI_DISABLE_NSS w2)")
        case (Inl e)
        obtain f v where e: "e = (f, v)" by (cases e)
        with Inl have w: "wait_until_ready (WIFI_DISABLE_NSS w2) = Inl (f, v)" by simp
        with wait_until_ready_advances [of WaitReadyForResp RespReady "WIFI_DISABLE_NSS w2" v f]
        have "advances WaitReadyForResp (WIFI_DISABLE_NSS w2) v WaitReadyForResp" by simp
        with a2 have "advances WaitReadyForCmd w v WaitReadyForResp"
          by (rule advances_trans)
        moreover from w1 tx st w have "?T = Inl (f, v)"
          by (simp add: WIFI_SendATCommand_def)
        ultimately show ?thesis by (intro fault [of f v WaitReadyForResp]) simp_all
      next
        case w3: (Inr w3)
        with wait_until_ready_advances [of WaitReadyForResp RespReady "WIFI_DISABLE_NSS w2" w3]
        have "advances WaitReadyForResp (WIFI_DISABLE_NSS w2) w3 RespReady" by simp
        with a2 have "advances WaitReadyForCmd w w3 RespReady"
          by (rule advances_trans)
        moreover have "advances RespReady w3 (WIFI_ENABLE_NSS w3) SelectedRead"
          by (rule advances_step [where e = NssEnabled]) (simp_all add: WIFI_ENABLE_NSS_def emit_def)
        ultimately have a3: "advances WaitReadyForCmd w (WIFI_ENABLE_NSS w3) SelectedRead"
          by (rule advances_trans)
        show ?thesis
        proof (cases "WIFI_SPI_Receive cfg bRx sizeRx (WIFI_ENABLE_NSS w3)")
          case (Inl e)
          obtain f v where e: "e = (f, v)" by (cases e)
          with Inl have rx: "WIFI_SPI_Receive cfg bRx sizeRx (WIFI_ENABLE_NSS w3) = Inl (f, v)"
            by simp
          with WIFI_SPI_Receive_order [of cfg bRx sizeRx "WIFI_ENABLE_NSS w3" _ v f]
          obtain q' where "advances SelectedRead (WIFI_ENABLE_NSS w3) v q'"
              "q' = SelectedRead \<or> q' = Receiving \<or> q' = OverflowCheck"
            by auto
          with a3 have "advances WaitReadyForCmd w v q'"
              and "q' \<noteq> Done" and "q' \<noteq> Overflowed"
            by (auto intro: advances_trans)
          moreover from w1 tx st w3 rx have "?T = Inl (f, v)"
            by (simp add: WIFI_SendATCommand_def)
          ultimately show ?thesis by (intro fault [of f v q'])
        next
          case (Inr r')
          obtain st' w4 where r': "r' = (st', w4)" by (cases r')
          with Inr have rx: "WIFI_SPI_Receive cfg bRx sizeRx (WIFI_ENABLE_NSS w3) = Inr (st', w4)"
            by simp
          with WIFI_SPI_Receive_order [of cfg bRx sizeRx "WIFI_ENABLE_NSS w3" st' w4]
          have st': "st' = WIFI_OK" and "advances SelectedRead (WIFI_ENABLE_NSS w3) w4 OverflowCheck"
            by simp_all
          with a3 have a4: "advances WaitReadyForCmd w w4 OverflowCheck"
            by (auto intro: advances_trans)
          obtain rdy w5 where p: "WIFI_IS_CMDDATA_READY w4 = (rdy, w5)"
            by (cases "WIFI_IS_CMDDATA_READY w4")
          note t5 = WIFI_IS_CMDDATA_READY_trace [OF p]
          show ?thesis
          proof (cases rdy)
            case True
            with advances_step [OF t5, of OverflowCheck Overflowed]
            have "advances OverflowCheck w4 w5 Overflowed"
              by simp
            with a4 have "advances WaitReadyForCmd w w5 Overflowed"
              by (rule advances_trans)
            moreover from w1 tx st w3 rx st' p True have "?T = Inl (ErrorHandler, w5)"
              by (simp add: WIFI_SendATCommand_def Error_Handler_def)
            ultimately show ?thesis
              by (intro exI [of _ Overflowed]) (simp add: final_world_def)
          next
            case False
            with advances_step [OF t5, of OverflowCheck Checked]
            have "advances OverflowCheck w4 w5 Checked"
              by simp
            with a4 have "advances WaitReadyForCmd w w5 Checked"
              by (rule advances_trans)
            moreover have "advances Checked w5 (WIFI_DISABLE_NSS w5) Done"
              by (rule advances_step [where e = NssDisabled]) (simp_all add: WIFI_DISABLE_NSS_def emit_def)
            ultimately have "advances WaitReadyForCmd w (WIFI_DISABLE_NSS w5) Done"
              by (rule advances_trans)
            moreover from w1 tx st w3 rx st' p False
            have "?T = Inr (WIFI_OK, WIFI_DISABLE_NSS w5)"
              by (simp add: WIFI_SendATCommand_def)
            ultimately show ?thesis
              by (intro exI [of _ Done]) (simp add: final_world_def)
          qed
        qed
      qed
    qed
  qed
qed

theorem WIFI_SendATCommand_order_witness:
  "(case WIFI_SendATCommand example_config WifiTxBuffer 4 WifiRxBuffer 8
           (idle_world\<lparr>mem := (mem idle_world)(WifiTxBuffer := [65, 63, 13, 0, 0, 0, 0, 0]),
                       ready := [False, True, True, True, False, False],
                       spi_rx := [(HAL_OK, 79, 75)], spi_tx := [HAL_OK]\<rparr>) of
      Inl e \<Rightarrow> False
    | Inr (st, w') \<Rightarrow> st = WIFI_OK
        \<and> trace w' = [ReadyPolled False, ReadyPolled True, NssEnabled,
                       SpiTransmit HAL_OK [65, 63, 13, 0], NssDisabled,
                       ReadyPolled True, NssEnabled,
                       ReadyPolled True, SpiReceive HAL_OK [79, 75], ReadyPolled False,
                       ReadyPolled False, NssDisabled]
        \<and> exchange_run WaitReadyForCmd (trace w') = Some Done)
   \<and> (case WIFI_SendATCommand example_config WifiTxBuffer 4 WifiRxBuffer 8
           (idle_world\<lparr>mem := (mem idle_world)(WifiTxBuffer := [65, 63, 13, 0, 0, 0, 0, 0]),
                       ready := [True, True, True, False, True],
                       spi_rx := [(HAL_OK, 79, 75)], spi_tx := [HAL_OK]\<rparr>) of
      Inl (f, w') \<Rightarrow> f = ErrorHandler
        \<and> exchange_run WaitReadyForCmd (trace w') = Some Overflowed
    | Inr r \<Rightarrow> False)"
  using WIFI_SendATCommand_order
          [of "idle_world\<lparr>mem := (mem idle_world)(WifiTxBuffer := [65, 63, 13, 0, 0, 0, 0, 0]),
                       ready := [True, True, True, False, True],
                       spi_rx := [(HAL_OK, 79, 75)], spi_tx := [HAL_OK]\<rparr>"
              example_config WifiTxBuffer 4 WifiRxBuffer 8]
  by (simp add: driver_unfold WIFI_SendATCommand_def example_config_def idle_world_def)


section \<open>\<^verbatim>\<open>WIFI_CreateNewNetwork\<close>: the assigned address\<close>

lemma c_string_split:
  assumes "c_string p = Inr s"
  shows "0 \<notin> set s \<and> (\<exists>rest. p = s @ 0 # rest)"
proof -
  from assms have z: "0 \<in> set p" and s: "s = takeWhile (\<lambda>b. b \<noteq> 0) p"
    by (auto simp: c_string_def split: if_splits)
  from z have "dropWhile (\<lambda>b. b \<noteq> 0) p \<noteq> []" by simp
  then obtain x rest where d: "dropWhile (\<lambda>b. b \<noteq> 0) p = x # rest"
    by (cases "dropWhile (\<lambda>b. b \<noteq> 0) p") auto
  with hd_dropWhile [of "\<lambda>b. b \<noteq> 0" p] have "x = 0" by auto
  with d s takeWhile_dropWhile_id [of "\<lambda>b. b \<noteq> 0" p] have "p = s @ 0 # rest"
    by metis
  moreover have "0 \<notin> set s"
    unfolding s by (auto dest: set_takeWhileD)
  ultimately show ?thesis by blast
qed

lemma takeWhile_before: "x \<notin> set pre \<Longrightarrow> takeWhile (\<lambda>b. b \<noteq> x) (pre @ x # post) = pre"
  by (induction pre) auto

lemma c_string_append: "0 \<notin> set s \<Longrightarrow> c_string (s @ 0 # rest) = Inr s"
  by (simp add: c_string_def takeWhile_before)

lemma expand_format_plain: "37 \<notin> set f \<Longrightarrow> expand_format f = Inr f"
  by (induction f rule: expand_format.induct) auto

lemma snprintf_plain:
  assumes "c_string p = Inr f" and "37 \<notin> set f" and "0 < n"
    and "min (length f) (n - 1) < length dst"
  shows "snprintf dst n p
           = Inr (take (min (length f) (n - 1)) f @ 0 # drop (min (length f) (n - 1) + 1) dst,
                  length f)"
  using assms by (simp add: snprintf_def expand_format_plain Let_def)

text \<open>
  What lines 155 to 161 store, for every response: when the string in \<^verbatim>\<open>wifiRxBuffer\<close>
  is \<open>pre\<close>, a comma, \<open>ip\<close>, a comma and \<open>post\<close>, with no comma in \<open>pre\<close> and none in
  \<open>ip\<close>, no \<^verbatim>\<open>%\<close> after the first comma (the rest of the response is the format of
  \<^verbatim>\<open>snprintf\<close>) and a field longer than \<open>ip\<close>, the field becomes \<open>ip\<close> followed by NUL
  bytes.
\<close>

lemma WIFI_CreateNewNetwork_address_between_commas:
  assumes resp: "c_string rx = Inr (pre @ 44 # ip @ 44 # post)"
    and pre: "44 \<notin> set pre" and ip: "44 \<notin> set ip"
    and plain: "37 \<notin> set ip" "37 \<notin> set post"
    and room: "length ip < length (ipAddress hwifi)"
  shows "WIFI_CreateNewNetwork_address hwifi rx
           = Inr (hwifi\<lparr>ipAddress := ip @ replicate (length (ipAddress hwifi) - length ip) 0\<rparr>)"
proof -
  define s where "s = pre @ 44 # ip @ 44 # post"
  define field where "field = ip @ 44 # post"
  define size' where "size' = length (ipAddress hwifi)"
  from c_string_split [OF resp] obtain rest where
    nul: "0 \<notin> set s" and rx: "rx = s @ 0 # rest"
    unfolding s_def by blast
  have resp': "c_string rx = Inr s"
    using resp by (simp add: s_def)
  have comma1: "44 \<in> set s"
    by (simp add: s_def)
  have start: "length (takeWhile (\<lambda>b. b \<noteq> 44) s) + 1 = length pre + 1"
    using pre by (simp add: s_def takeWhile_before)
  have from_start: "drop (length pre + 1) s = field"
    by (simp add: s_def field_def)
  have comma2: "44 \<in> set field"
    by (simp add: field_def)
  have stop: "length (takeWhile (\<lambda>b. b \<noteq> 44) field) = length ip"
    using ip by (simp add: field_def takeWhile_before)
  have "drop (length pre + 1) rx = field @ 0 # rest"
    by (simp add: rx s_def field_def)
  moreover have "0 \<notin> set field"
    using nul by (simp add: s_def field_def)
  ultimately have fmt: "c_string (drop (length pre + 1) rx) = Inr field"
    by (simp add: c_string_append)
  have plain': "37 \<notin> set field"
    using plain by (simp add: field_def)
  have k: "min (length field) (length ip + 1 - 1) = length ip"
    by (simp add: field_def)
  have "snprintf (replicate size' 0) (length ip + 1) (drop (length pre + 1) rx)
          = Inr (take (length ip) field @ 0 # drop (length ip + 1) (replicate size' 0), length field)"
    using snprintf_plain [OF fmt plain', of "length ip + 1" "replicate size' 0"] room
    unfolding k by (simp add: size'_def)
  moreover have "take (length ip) field = ip"
    by (simp add: field_def)
  moreover have "0 # drop (length ip + 1) (replicate size' (0 :: byte)) = replicate (size' - length ip) 0"
  proof -
    obtain m where "size' - length ip = Suc m"
      using room unfolding size'_def by (metis Suc_diff_Suc)
    then show ?thesis by simp
  qed
  ultimately have copy: "snprintf (replicate size' 0) (length ip + 1) (drop (length pre + 1) rx)
          = Inr (ip @ replicate (size' - length ip) 0, length field)"
    by simp
  have "WIFI_CreateNewNetwork_address hwifi rx
          = (case snprintf (replicate size' 0) (length ip + 1) (drop (length pre + 1) rx) of
               Inl f \<Rightarrow> Inl f
             | Inr (ip', n) \<Rightarrow> Inr (hwifi\<lparr>ipAddress := ip'\<rparr>))"
    unfolding WIFI_CreateNewNetwork_address_def resp' Let_def
    by (simp only: sum.case comma1 start from_start comma2 stop memset0_def size'_def
          not_not not_True_eq_False if_True if_False le_refl replicate_app_Cons_same drop_all append_Nil2
          add_diff_cancel_left')
  then show ?thesis
    unfolding copy by (simp add: size'_def)
qed

text \<open>
  C9. \<^verbatim>\<open>WIFI_CreateNewNetwork\<close> stores the text between the first comma of the status
  response and the next comma in \<^verbatim>\<open>hwifi->ipAddress\<close>, NUL-terminated. For every run
  whose five commands have gone through, and every response \<open>pre\<close>, comma, \<open>ip\<close>, comma,
  \<open>post\<close> in \<^verbatim>\<open>wifiRxBuffer\<close> (no comma in \<open>pre\<close> or \<open>ip\<close>, no \<^verbatim>\<open>%\<close> after the first
  comma, the field longer than \<open>ip\<close>), the call returns \<^verbatim>\<open>WIFI_OK\<close> with \<open>ip\<close> and NUL
  bytes in the field, and the string the field holds is \<open>ip\<close>. In particular the
  response \<^verbatim>\<open>"AT,10.0.0.5,END\r"\<close> gives \<^verbatim>\<open>"10.0.0.5"\<close> in a field of at least 9 bytes.
\<close>

theorem WIFI_CreateNewNetwork_extracts_address:
  assumes cmds: "WIFI_CreateNewNetwork_commands cfg hwifi w = Inr w5"
  shows "(\<forall>pre ip post.
            c_string (mem w5 WifiRxBuffer) = Inr (pre @ 44 # ip @ 44 # post)
            \<and> 44 \<notin> set pre \<and> 44 \<notin> set ip \<and> 37 \<notin> set ip \<and> 37 \<notin> set post
            \<and> length ip < length (ipAddress hwifi)
            \<longrightarrow> WIFI_CreateNewNetwork cfg hwifi w
                  = Inr (WIFI_OK,
                         hwifi\<lparr>ipAddress := ip @ replicate (length (ipAddress hwifi) - length ip) 0\<rparr>,
                         w5)
                \<and> c_string (ip @ replicate (length (ipAddress hwifi) - length ip) 0) = Inr ip)
       \<and> (c_string (mem w5 WifiRxBuffer)
             = Inr [65, 84, 44, 49, 48, 46, 48, 46, 48, 46, 53, 44, 69, 78, 68, 13]
           \<and> 9 \<le> length (ipAddress hwifi)
           \<longrightarrow> WIFI_CreateNewNetwork cfg hwifi w
                 = Inr (WIFI_OK,
                        hwifi\<lparr>ipAddress := [49, 48, 46, 48, 46, 48, 46, 53]
                                             @ replicate (length (ipAddress hwifi) - 8) 0\<rparr>,
                        w5))"
proof -
  have general: "WIFI_CreateNewNetwork cfg hwifi w
                  = Inr (WIFI_OK,
                         hwifi\<lparr>ipAddress := ip @ replicate (length (ipAddress hwifi) - length ip) 0\<rparr>,
                         w5)
                \<and> c_string (ip @ replicate (length (ipAddress hwifi) - length ip) 0) = Inr ip"
    if resp: "c_string (mem w5 WifiRxBuffer) = Inr (pre @ 44 # ip @ 44 # post)"
      and commas: "44 \<notin> set pre" "44 \<notin> set ip"
      and plain: "37 \<notin> set ip" "37 \<notin> set post"
      and room: "length ip < length (ipAddress hwifi)"
    for pre ip post
  proof -
    from c_string_split [OF resp] have "0 \<notin> set ip" by simp
    moreover obtain m where "length (ipAddress hwifi) - length ip = Suc m"
      using room by (metis Suc_diff_Suc)
    ultimately have "c_string (ip @ replicate (length (ipAddress hwifi) - length ip) 0) = Inr ip"
      by (simp add: c_string_append)
    with cmds WIFI_CreateNewNetwork_address_between_commas [OF resp commas plain room]
    show ?thesis
      by (simp add: WIFI_CreateNewNetwork_def)
  qed
  have "WIFI_CreateNewNetwork cfg hwifi w
          = Inr (WIFI_OK,
                 hwifi\<lparr>ipAddress := [49, 48, 46, 48, 46, 48, 46, 53]
                                      @ replicate (length (ipAddress hwifi) - 8) 0\<rparr>,
                 w5)"
    if "c_string (mem w5 WifiRxBuffer)
          = Inr [65, 84, 44, 49, 48, 46, 48, 46, 48, 46, 53, 44, 69, 78, 68, 13]"
      and "9 \<le> length (ipAddress hwifi)"
    using general [of "[65, 84]" "[49, 48, 46, 48, 46, 48, 46, 53]" "[69, 78, 68, 13]"] that
    by simp
  with general show ?thesis by blast
qed

lemmas network_unfold =
  WIFI_CreateNewNetwork_def WIFI_CreateNewNetwork_commands_def WIFI_CreateNewNetwork_address_def
  send_formatted_def sprintf_def print_d_def dec_digits.simps WIFI_SendATCommand_def

theorem WIFI_CreateNewNetwork_extracts_address_witness:
  "(case WIFI_CreateNewNetwork_commands net_config net_handle net_world of
      Inl e \<Rightarrow> False
    | Inr w5 \<Rightarrow>
        mem w5 WifiRxBuffer
          = [65, 84, 44, 49, 48, 46, 48, 46, 48, 46, 53, 44, 69, 78, 68, 13, 0, 13, 0, 0]
        \<and> c_string (mem w5 WifiRxBuffer)
          = Inr ([65, 84] @ 44 # [49, 48, 46, 48, 46, 48, 46, 53] @ 44 # [69, 78, 68, 13]))
   \<and> 44 \<notin> set [65 :: byte, 84] \<and> 44 \<notin> set [49 :: byte, 48, 46, 48, 46, 48, 46, 53]
   \<and> 37 \<notin> set [49 :: byte, 48, 46, 48, 46, 48, 46, 53] \<and> 37 \<notin> set [69 :: byte, 78, 68, 13]
   \<and> length [49 :: byte, 48, 46, 48, 46, 48, 46, 53] < length (ipAddress net_handle)
   \<and> (case WIFI_CreateNewNetwork net_config net_handle net_world of
        Inl e \<Rightarrow> False
      | Inr (st, hwifi', w') \<Rightarrow> st = WIFI_OK
          \<and> ipAddress hwifi' = [49, 48, 46, 48, 46, 48, 46, 53, 0, 0, 0, 0, 0, 0, 0, 0]
          \<and> c_string (ipAddress hwifi') = Inr [49, 48, 46, 48, 46, 48, 46, 53])"
  using WIFI_CreateNewNetwork_extracts_address [of net_config net_handle net_world]
  by (simp add: driver_unfold network_unfold net_config_def net_handle_def net_world_def
        example_config_def idle_world_def)


end
